theory Spec2Isabelle
  imports Main "HOL-Library.AList"
begin

section \<open>Strings and the JavaScript string operations the program uses\<close>

text \<open>
  JavaScript strings are modelled as \<open>string\<close>, lists of 8-bit characters: the model covers
  the strings whose code units are below 256. The regular expressions of \<open>main.ts\<close> carry the
  \<open>u\<close> flag and neither \<open>s\<close> nor \<open>m\<close>: \<open>\d\<close> is exactly the ten ASCII digits, \<open>.\<close> is every
  character but a line terminator, and \<open>$\<close> is the end of the whole string. Of the four line
  terminators of ECMAScript, line feed and carriage return exist in the 8-bit character
  type; U+2028 and U+2029 lie outside it.
\<close>

definition is_digit :: "char \<Rightarrow> bool" where
  "is_digit c = (c \<in> set ''0123456789'')"

definition is_line_terminator :: "char \<Rightarrow> bool" where
  "is_line_terminator c = (c = CHR 0x0A \<or> c = CHR 0x0D)"

definition startsWith :: "string \<Rightarrow> string \<Rightarrow> bool" where
  "startsWith s p = (take (length p) s = p)"

text \<open>\<open>s.split('.')\<close>: the pieces between the dots; the empty string gives one empty piece.\<close>

fun split_dot :: "string \<Rightarrow> string list" where
  "split_dot [] = [[]]"
| "split_dot (c # cs) =
     (if c = CHR ''.'' then [] # split_dot cs
      else (case split_dot cs of [] \<Rightarrow> [[c]] | x # xs \<Rightarrow> (c # x) # xs))"

text \<open>\<open>segments.join('.')\<close>.\<close>

fun join_dot :: "string list \<Rightarrow> string" where
  "join_dot [] = []"
| "join_dot [x] = x"
| "join_dot (x # y # ys) = x @ CHR ''.'' # join_dot (y # ys)"

text \<open>\<open>range.replace(/^\D*/u, '')\<close>: the leading run of non-digits is removed.\<close>

definition strip_leading_non_digits :: "string \<Rightarrow> string" where
  "strip_leading_non_digits s = dropWhile (\<lambda>c. \<not> is_digit c) s"

section \<open>Data model of \<open>main.ts\<close>\<close>

text \<open>
  \<open>JSON.parse(...) as PackageJson\<close> and \<open>JSON.parse(...) as DenoJson\<close> are two views of a
  parsed top-level JSON object; the casts are erased at run time. One record holds the
  three properties the program reads; the other properties of a document are not
  represented. A property that is missing is \<open>None\<close>. A value of \<open>imports\<close> is a string or
  something else (\<open>typeof denoImport !== 'string'\<close>); the dependency sections are
  \<open>Record<string, string>\<close>, as the interfaces declare them: a map holds the own
  properties of the section (what a read of a name finds that is no own property is
  \<open>get_property\<close> below). \<open>imports\<close> is an association list in the order of
  \<open>Object.entries\<close>; the keys of an object are distinct, which the theorems that need it
  assume.
\<close>

datatype jvalue = JString string | JOther

record json_object =
  imports' :: "(string \<times> jvalue) list option"
  dependencies :: "(string \<rightharpoonup> string) option"
  devDependencies :: "(string \<rightharpoonup> string) option"

type_synonym PackageJson = json_object
type_synonym DenoJson = json_object

datatype precision = Auto | Major | Minor | Full

text \<open>
  What the program throws: the two \<open>Error\<close>s of the missing files with their messages, the
  \<open>SyntaxError\<close> of \<open>JSON.parse\<close>, and the \<open>TypeError\<close> of the runtime.
\<close>

datatype error = Error string | SyntaxError | TypeError

datatype registry = Npm | Jsr

record SyncOptions =
  denoJsonPath :: string
  packageJsonPath :: string
  silent :: "bool option"
  versionPrecision :: "precision option"

record Update =
  name :: string
  oldVersion :: string
  newVersion :: string

record ProcessResult = Update +
  newImport :: string

record SyncResult =
  hasUpdates :: bool
  updates :: "Update list"

definition MAJOR_MINOR_PRECISION :: nat where
  "MAJOR_MINOR_PRECISION = 2"

definition detectVersionPrecision :: "string \<Rightarrow> nat" where
  "detectVersionPrecision version = length (split_dot version)"

definition formatVersion :: "string \<Rightarrow> nat \<Rightarrow> string" where
  "formatVersion version precision = join_dot (take precision (split_dot version))"

section \<open>The two registry patterns\<close>

text \<open>
  \<open>/^npm:(?<name>[^@]+)@(?<version>\d+(?:\.\d+)*)(?<subpath>\/.*)?$/u\<close> and
  \<open>/^jsr:(?<name>@[^/@]+\/[^@/]+)@(?<version>\d+(?:\.\d+)*)(?<subpath>\/.*)?$/u\<close>.
  Every quantifier is greedy and is followed by a character its class excludes (or by the
  end of the string), so the first attempt of the backtracking matcher is the only one
  that can succeed; the functions below follow that attempt piece by piece. The result is
  the three named groups; a subpath group that did not take part is \<open>None\<close>. Lemma
  \<open>match_pattern_iff\<close> below shows that the functions accept exactly the strings the
  patterns describe and that the three groups are determined by the string.
\<close>

text \<open>\<open>(?:\.\d+)*\<close>: as many groups of a dot and a non-empty run of digits as there are.\<close>

function scan_dot_groups :: "string \<Rightarrow> string \<times> string" where
  "scan_dot_groups s =
     (case s of
        [] \<Rightarrow> ([], s)
      | c # t \<Rightarrow>
          if c = CHR ''.'' \<and> takeWhile is_digit t \<noteq> [] then
            (case scan_dot_groups (dropWhile is_digit t) of
               (g, r) \<Rightarrow> (c # takeWhile is_digit t @ g, r))
          else ([], s))"
  by pat_completeness auto
termination
  by (relation "measure length") (auto simp: length_dropWhile_le less_Suc_eq_le)

text \<open>\<open>\d+(?:\.\d+)*\<close>: the version and what follows it.\<close>

definition scan_version :: "string \<Rightarrow> (string \<times> string) option" where
  "scan_version s =
     (if takeWhile is_digit s = [] then None
      else (case scan_dot_groups (dropWhile is_digit s) of
              (g, r) \<Rightarrow> Some (takeWhile is_digit s @ g, r)))"

text \<open>\<open>(?<subpath>\/.*)?$\<close>: nothing, or a slash and no line terminator up to the end.\<close>

definition scan_subpath :: "string \<Rightarrow> string option option" where
  "scan_subpath r =
     (case r of
        [] \<Rightarrow> Some None
      | c # t \<Rightarrow>
          if c = CHR ''/'' \<and> (\<forall>d \<in> set t. \<not> is_line_terminator d) then Some (Some r)
          else None)"

definition scan_version_subpath :: "string \<Rightarrow> string \<Rightarrow> (string \<times> string \<times> string option) option" where
  "scan_version_subpath nm r =
     (case scan_version r of
        None \<Rightarrow> None
      | Some (version, r') \<Rightarrow>
          (case scan_subpath r' of
             None \<Rightarrow> None
           | Some subpath \<Rightarrow> Some (nm, version, subpath)))"

definition match_npm :: "string \<Rightarrow> (string \<times> string \<times> string option) option" where
  "match_npm s =
     (if startsWith s ''npm:'' then
        (let r = drop 4 s; nm = takeWhile (\<lambda>c. c \<noteq> CHR ''@'') r
         in if nm = [] then None
            else (case dropWhile (\<lambda>c. c \<noteq> CHR ''@'') r of
                    [] \<Rightarrow> None
                  | _ # r' \<Rightarrow> scan_version_subpath nm r'))
      else None)"

definition match_jsr :: "string \<Rightarrow> (string \<times> string \<times> string option) option" where
  "match_jsr s =
     (if startsWith s ''jsr:@'' then
        (let r = drop 5 s;
             scope = takeWhile (\<lambda>c. c \<noteq> CHR ''/'' \<and> c \<noteq> CHR ''@'') r
         in if scope = [] then None
            else (case dropWhile (\<lambda>c. c \<noteq> CHR ''/'' \<and> c \<noteq> CHR ''@'') r of
                    [] \<Rightarrow> None
                  | c # r' \<Rightarrow>
                      if c \<noteq> CHR ''/'' then None
                      else (let pk = takeWhile (\<lambda>c. c \<noteq> CHR ''@'' \<and> c \<noteq> CHR ''/'') r'
                            in if pk = [] then None
                               else (case dropWhile (\<lambda>c. c \<noteq> CHR ''@'' \<and> c \<noteq> CHR ''/'') r' of
                                       [] \<Rightarrow> None
                                     | d # r'' \<Rightarrow>
                                         if d \<noteq> CHR ''@'' then None
                                         else scan_version_subpath
                                                (CHR ''@'' # scope @ CHR ''/'' # pk) r''))))
      else None)"

definition match_pattern :: "registry \<Rightarrow> string \<Rightarrow> (string \<times> string \<times> string option) option" where
  "match_pattern registry s = (case registry of Npm \<Rightarrow> match_npm s | Jsr \<Rightarrow> match_jsr s)"

definition registry_text :: "registry \<Rightarrow> string" where
  "registry_text registry = (case registry of Npm \<Rightarrow> ''npm'' | Jsr \<Rightarrow> ''jsr'')"

section \<open>Reading a property of a parsed object\<close>

text \<open>
  An object made by \<open>JSON.parse\<close> or by the YAML parser is a plain object. \<open>obj[key]\<close> is the
  object's own property when it has one under that key, and otherwise what
  \<open>Object.prototype\<close> has under it. \<open>Object.prototype\<close> has the twelve properties below
  (ECMAScript with its Annex B; the list \<open>Object.getOwnPropertyNames(Object.prototype)\<close>
  gives): eleven are functions and \<open>__proto__\<close> reads as \<open>Object.prototype\<close> itself, so none
  of them is \<open>null\<close> or \<open>undefined\<close>. Every other key reads as \<open>undefined\<close>.
\<close>

definition object_prototype_names :: "string list" where
  "object_prototype_names =
     [''constructor'', ''__defineGetter__'', ''__defineSetter__'', ''hasOwnProperty'',
      ''__lookupGetter__'', ''__lookupSetter__'', ''isPrototypeOf'', ''propertyIsEnumerable'',
      ''toString'', ''valueOf'', ''__proto__'', ''toLocaleString'']"

datatype 'a property = Own 'a | Inherited string | Missing

definition get_property :: "(string \<rightharpoonup> 'a) \<Rightarrow> string \<Rightarrow> 'a property" where
  "get_property obj key =
     (case obj key of
        Some v \<Rightarrow> Own v
      | None \<Rightarrow> if key \<in> set object_prototype_names then Inherited key else Missing)"

section \<open>\<open>processImport\<close>\<close>

text \<open>
  \<open>section?.[name]?.replace(/^\D*/u, '')\<close> for one of the two sections: \<open>undefined\<close> when
  the section or the property is missing, the stripped range when the section has the name
  as its own property. When the name is not an own property but one \<open>Object.prototype\<close>
  has, the value read is a function (or \<open>Object.prototype\<close>), its \<open>replace\<close> is \<open>undefined\<close>,
  and calling it throws a \<open>TypeError\<close>.
\<close>

definition section_version :: "(string \<rightharpoonup> string) option \<Rightarrow> string \<Rightarrow> error + string option" where
  "section_version sect nm =
     (case sect of
        None \<Rightarrow> Inr None
      | Some deps \<Rightarrow>
          (case get_property deps nm of
             Own r \<Rightarrow> Inr (Some (strip_leading_non_digits r))
           | Inherited k \<Rightarrow> Inl TypeError
           | Missing \<Rightarrow> Inr None))"

text \<open>
  \<open>pkg.devDependencies?.[name]?.replace(/^\D*/u, '') ?? pkg.dependencies?.[name]?.replace(/^\D*/u, '')\<close>:
  the left operand first; the right one only when the left is \<open>undefined\<close>. A declared
  range that strips to the empty string is a value, not a miss.
\<close>

definition pkgVersion_of :: "PackageJson \<Rightarrow> string \<Rightarrow> error + string option" where
  "pkgVersion_of pkg nm =
     (case section_version (devDependencies pkg) nm of
        Inl e \<Rightarrow> Inl e
      | Inr found \<Rightarrow>
          (case found of
             Some v \<Rightarrow> Inr (Some v)
           | None \<Rightarrow> section_version (dependencies pkg) nm))"

text \<open>
  The four branches that compute \<open>finalVersion\<close>; they are written inline in the source.
  \<open>pkgVersion.split('.')[0] ?? pkgVersion\<close> is the first piece, or \<open>pkgVersion\<close> if there is
  none.
\<close>

definition finalVersion_of :: "precision \<Rightarrow> string \<Rightarrow> string \<Rightarrow> string" where
  "finalVersion_of vp version pkgVersion =
     (case vp of
        Major \<Rightarrow> (case split_dot pkgVersion of [] \<Rightarrow> pkgVersion | x # _ \<Rightarrow> x)
      | Minor \<Rightarrow> formatVersion pkgVersion MAJOR_MINOR_PRECISION
      | Full \<Rightarrow> pkgVersion
      | Auto \<Rightarrow> formatVersion pkgVersion (detectVersionPrecision version))"

text \<open>
  \<open>processImport\<close>: \<open>Inr None\<close> is the result \<open>null\<close>, \<open>Inl\<close> an exception thrown by the
  lookup. The groups \<open>name\<close> and \<open>version\<close> take part in every match, so the test
  \<open>name == null || version == null\<close> never fires.
\<close>

definition processImport :: "string \<Rightarrow> registry \<Rightarrow> PackageJson \<Rightarrow> precision \<Rightarrow> error + ProcessResult option" where
  "processImport denoImport registry pkg vp =
     (case match_pattern registry denoImport of
        None \<Rightarrow> Inr None
      | Some (nm, version, subpath) \<Rightarrow>
          (case pkgVersion_of pkg nm of
             Inl e \<Rightarrow> Inl e
           | Inr found \<Rightarrow>
               (case found of
                  None \<Rightarrow> Inr None
                | Some pkgVersion \<Rightarrow>
                    if pkgVersion = version then Inr None
                    else (let finalVersion = finalVersion_of vp version pkgVersion
                          in if finalVersion = version then Inr None
                             else Inr (Some \<lparr>name = nm, oldVersion = version,
                                          newVersion = finalVersion,
                                          newImport = registry_text registry @ '':'' @ nm @ ''@''
                                            @ finalVersion
                                            @ (case subpath of None \<Rightarrow> [] | Some p \<Rightarrow> p)\<rparr>)))))"

section \<open>The sync engine: \<open>syncDenoNpmDependencies\<close>\<close>

text \<open>
  The file system maps a resolved path to the content of the file there. The content of a
  file is represented by what \<open>JSON.parse\<close> makes of it: the parsed object, or
  \<open>Malformed\<close> when \<open>JSON.parse\<close> throws. Writing
  \<open>JSON.stringify(deno, null, 2)\<close> followed by a newline is represented by storing
  \<open>deno\<close>: \<open>JSON.parse\<close> gives back what \<open>JSON.stringify\<close> was given. Every call of
  \<open>fs.writeFileSync\<close> is also recorded in \<open>writes\<close>, and every \<open>console.log\<close> in
  \<open>console\<close>. \<open>path.resolve\<close> is a parameter.
\<close>

datatype content = Json json_object | Malformed

datatype log_line = Updated_banner | Update_line Update | In_sync_banner

record world =
  files :: "string \<rightharpoonup> content"
  writes :: "string list"
  console :: "log_line list"

definition JSON_parse :: "content \<Rightarrow> json_object option" where
  "JSON_parse c = (case c of Json j \<Rightarrow> Some j | Malformed \<Rightarrow> None)"

text \<open>
  The body of the \<open>for\<close> loop, on the loop's variables: the entries of \<open>deno.imports\<close>
  as mutated so far, \<open>updates\<close> and \<open>hasUpdates\<close>. An exception thrown by \<open>processImport\<close>
  leaves the body, and the loop, at once.
\<close>

type_synonym loop_vars = "(string \<times> jvalue) list \<times> Update list \<times> bool"

definition sync_entry :: "PackageJson \<Rightarrow> precision \<Rightarrow> string \<times> jvalue \<Rightarrow> loop_vars \<Rightarrow> error + loop_vars" where
  "sync_entry pkg vp entry st =
     (case entry of (importKey, denoImport) \<Rightarrow>
      (case st of (deno_imports, upd, has) \<Rightarrow>
       (case denoImport of
          JOther \<Rightarrow> Inr st
        | JString s \<Rightarrow>
            (case processImport s Npm pkg vp of
               Inl e \<Rightarrow> Inl e
             | Inr npm \<Rightarrow>
                 (case npm of
                    Some npmResult \<Rightarrow>
                      Inr (AList.update importKey (JString (newImport npmResult)) deno_imports,
                           upd @ [\<lparr>name = name npmResult, oldVersion = oldVersion npmResult,
                                    newVersion = newVersion npmResult\<rparr>],
                           True)
                  | None \<Rightarrow>
                      (case processImport s Jsr pkg vp of
                         Inl e \<Rightarrow> Inl e
                       | Inr jsr \<Rightarrow>
                           (case jsr of
                              Some jsrResult \<Rightarrow>
                                Inr (AList.update importKey (JString (newImport jsrResult)) deno_imports,
                                     upd @ [\<lparr>name = name jsrResult, oldVersion = oldVersion jsrResult,
                                              newVersion = newVersion jsrResult\<rparr>],
                                     True)
                            | None \<Rightarrow> Inr st)))))))"

text \<open>The loop over the entries that \<open>Object.entries(deno.imports)\<close> gave when it started.\<close>

fun sync_loop :: "PackageJson \<Rightarrow> precision \<Rightarrow> (string \<times> jvalue) list \<Rightarrow> loop_vars \<Rightarrow> error + loop_vars" where
  "sync_loop pkg vp [] st = Inr st"
| "sync_loop pkg vp (entry # rest) st =
     (case sync_entry pkg vp entry st of
        Inl e \<Rightarrow> Inl e
      | Inr st' \<Rightarrow> sync_loop pkg vp rest st')"

definition sync_entries :: "PackageJson \<Rightarrow> precision \<Rightarrow> (string \<times> jvalue) list \<Rightarrow> error + loop_vars" where
  "sync_entries pkg vp entries = sync_loop pkg vp entries (entries, [], False)"

text \<open>
  An exception leaves the function before the write and before any \<open>console.log\<close>, so the
  world is then the one the run started in.
\<close>

definition syncDenoNpmDependencies ::
  "(string \<Rightarrow> string) \<Rightarrow> SyncOptions \<Rightarrow> world \<Rightarrow> (error + SyncResult) \<times> world" where
  "syncDenoNpmDependencies path_resolve options w =
     (let quiet = (case silent options of None \<Rightarrow> False | Some b \<Rightarrow> b);
          vp = (case versionPrecision options of None \<Rightarrow> Auto | Some m \<Rightarrow> m);
          pkgPath = path_resolve (packageJsonPath options);
          denoPath = path_resolve (denoJsonPath options)
      in case files w pkgPath of
           None \<Rightarrow> (Inl (Error (''package.json not found at: '' @ pkgPath)), w)
         | Some pkgText \<Rightarrow>
        (case files w denoPath of
           None \<Rightarrow> (Inl (Error (''deno.json not found at: '' @ denoPath)), w)
         | Some denoText \<Rightarrow>
        (case JSON_parse pkgText of
           None \<Rightarrow> (Inl SyntaxError, w)
         | Some pkg \<Rightarrow>
        (case JSON_parse denoText of
           None \<Rightarrow> (Inl SyntaxError, w)
         | Some deno \<Rightarrow>
        (case imports' deno of
           None \<Rightarrow> (Inl TypeError, w)
         | Some entries \<Rightarrow>
        (case sync_entries pkg vp entries of
           Inl e \<Rightarrow> (Inl e, w)
         | Inr (deno_imports, upd, has) \<Rightarrow>
             if has then
               (Inr \<lparr>hasUpdates = has, updates = upd\<rparr>,
                w\<lparr>files := (files w)(denoPath \<mapsto> Json (deno\<lparr>imports' := Some deno_imports\<rparr>)),
                  writes := writes w @ [denoPath],
                  console := console w @
                    (if quiet then [] else Updated_banner # map Update_line upd)\<rparr>)
             else
               (Inr \<lparr>hasUpdates = has, updates = upd\<rparr>,
                w\<lparr>console := console w @ (if quiet then [] else [In_sync_banner])\<rparr>)))))))"

section \<open>The catalog resolver\<close>

text \<open>
  What the resolver takes from outside: \<open>detect\<close> of package-manager-detector (the name
  of the detected manager, if any), the functions of \<open>node:path\<close>, and the files that
  \<open>fs.existsSync\<close> and \<open>fs.readFileSync\<close> see. The content of a file is represented by
  what the YAML parser makes of it: the parsed value (\<open>None\<close> for \<open>null\<close>, the value of an
  empty document), or \<open>Yaml_error\<close> when the parser throws.

  The resolver returns what it reads, and a read can end at an inherited property. A value
  is a string or a built-in value: \<open>Builtin [k]\<close> is what \<open>Object.prototype\<close> has under \<open>k\<close>,
  and \<open>Builtin [k, p]\<close> what that value has under \<open>p\<close>. What a built-in value has under a
  key is the runtime's matter, not the program's: \<open>builtin_get k p\<close> is the outcome of
  reading \<open>p\<close> from \<open>Object.prototype[k]\<close>, an exception, \<open>None\<close> for \<open>null\<close> or \<open>undefined\<close>,
  or a value.
\<close>

datatype jsval = Text string | Builtin "string list"

record PnpmWorkspaceYaml =
  catalog :: "(string \<rightharpoonup> string) option"
  catalogs :: "(string \<rightharpoonup> (string \<rightharpoonup> string)) option"

datatype yaml_text = Yaml "PnpmWorkspaceYaml option" | Yaml_error

record node_env =
  detect :: "string \<Rightarrow> string option"
  resolve :: "string \<Rightarrow> string"
  root_of :: "string \<Rightarrow> string"
  join :: "string \<Rightarrow> string \<Rightarrow> string"
  dirname :: "string \<Rightarrow> string"
  yaml_files :: "string \<rightharpoonup> yaml_text"
  builtin_get :: "string \<Rightarrow> string \<Rightarrow> error + jsval option"

definition detectPackageManager :: "node_env \<Rightarrow> string \<Rightarrow> string option" where
  "detectPackageManager E cwd = detect E cwd"

definition readPnpmWorkspaceYaml :: "node_env \<Rightarrow> string \<Rightarrow> PnpmWorkspaceYaml option" where
  "readPnpmWorkspaceYaml E workspaceRoot =
     (let workspaceYamlPath = join E workspaceRoot ''pnpm-workspace.yaml''
      in case yaml_files E workspaceYamlPath of
           None \<Rightarrow> None
         | Some text \<Rightarrow> (case text of Yaml y \<Rightarrow> y | Yaml_error \<Rightarrow> None))"

text \<open>
  \<open>yaml.catalog?.[packageName] ?? null\<close> for the default catalog and
  \<open>yaml.catalogs?.[catalogName]?.[packageName] ?? null\<close> for a named one. No method is
  called on what is read, so an inherited property is returned as it is; under an inherited
  catalog name the package is looked up in the built-in value, which is \<open>builtin_get\<close>.
\<close>

definition resolvePnpmCatalog :: "node_env \<Rightarrow> string \<Rightarrow> string \<Rightarrow> string \<Rightarrow> error + jsval option" where
  "resolvePnpmCatalog E packageName catalogName workspaceRoot =
     (case readPnpmWorkspaceYaml E workspaceRoot of
        None \<Rightarrow> Inr None
      | Some yaml \<Rightarrow>
          if catalogName = ''default'' then
            (case catalog yaml of
               None \<Rightarrow> Inr None
             | Some c \<Rightarrow>
                 (case get_property c packageName of
                    Own v \<Rightarrow> Inr (Some (Text v))
                  | Inherited k \<Rightarrow> Inr (Some (Builtin [k]))
                  | Missing \<Rightarrow> Inr None))
          else
            (case catalogs yaml of
               None \<Rightarrow> Inr None
             | Some cs \<Rightarrow>
                 (case get_property cs catalogName of
                    Own c \<Rightarrow>
                      (case get_property c packageName of
                         Own v \<Rightarrow> Inr (Some (Text v))
                       | Inherited k \<Rightarrow> Inr (Some (Builtin [k]))
                       | Missing \<Rightarrow> Inr None)
                  | Inherited k \<Rightarrow> builtin_get E k packageName
                  | Missing \<Rightarrow> Inr None)))"

text \<open>\<open>String.prototype.trim\<close> on 8-bit characters: tab, LF, VT, FF, CR, space, no-break space.\<close>

definition is_white_space :: "char \<Rightarrow> bool" where
  "is_white_space c = (c \<in> set [CHR 0x09, CHR 0x0A, CHR 0x0B, CHR 0x0C, CHR 0x0D, CHR 0x20, CHR 0xA0])"

definition trim :: "string \<Rightarrow> string" where
  "trim s = rev (dropWhile is_white_space (rev (dropWhile is_white_space s)))"

text \<open>The result \<open>{ catalogName }\<close> is represented by the name itself.\<close>

definition parseCatalogReference :: "string \<Rightarrow> string option" where
  "parseCatalogReference reference =
     (if \<not> startsWith reference ''catalog:'' then None
      else (let catalogName = trim (drop (length ''catalog:'') reference)
            in Some (if catalogName = [] then ''default'' else catalogName)))"

definition resolveVersion :: "node_env \<Rightarrow> string \<Rightarrow> string \<Rightarrow> string \<Rightarrow> error + jsval option" where
  "resolveVersion E version packageName workspaceRoot =
     (case parseCatalogReference version of
        None \<Rightarrow> Inr (Some (Text version))
      | Some catalogName \<Rightarrow>
          if detectPackageManager E workspaceRoot \<noteq> Some ''pnpm'' then Inr None
          else resolvePnpmCatalog E packageName catalogName workspaceRoot)"

text \<open>
  The \<open>while\<close> loop of \<open>findWorkspaceRoot\<close>. Whether it ends depends on \<open>path.dirname\<close>;
  the outer \<open>None\<close> is a loop that never ends, \<open>Some None\<close> is the result \<open>null\<close>.
\<close>

partial_function (option) findWorkspaceRoot_loop :: "node_env \<Rightarrow> string \<Rightarrow> string \<Rightarrow> string option option" where
  "findWorkspaceRoot_loop E root currentPath =
     (if currentPath = root then Some None
      else if yaml_files E (join E currentPath ''pnpm-workspace.yaml'') \<noteq> None
           then Some (Some currentPath)
      else findWorkspaceRoot_loop E root (dirname E currentPath))"

definition findWorkspaceRoot :: "node_env \<Rightarrow> string \<Rightarrow> string option option" where
  "findWorkspaceRoot E startPath =
     (let currentPath = resolve E startPath; root = root_of E currentPath
      in findWorkspaceRoot_loop E root currentPath)"

section \<open>What one entry contributes\<close>

text \<open>
  The loop body treats an entry on its own: what the two calls of \<open>processImport\<close> give for
  it (the first registry that gives a result, or the first exception), the change that
  comes of it if any, the value the entry has afterwards, and the change record it adds.
  The lemmas below show that a loop that ends normally is these, entry by entry, and that
  the loop ends normally exactly when no entry throws.
\<close>

definition entry_result :: "PackageJson \<Rightarrow> precision \<Rightarrow> jvalue \<Rightarrow> error + ProcessResult option" where
  "entry_result pkg vp v =
     (case v of
        JOther \<Rightarrow> Inr None
      | JString s \<Rightarrow>
          (case processImport s Npm pkg vp of
             Inl e \<Rightarrow> Inl e
           | Inr npm \<Rightarrow>
               (case npm of
                  Some r \<Rightarrow> Inr (Some r)
                | None \<Rightarrow> processImport s Jsr pkg vp)))"

definition entry_change :: "PackageJson \<Rightarrow> precision \<Rightarrow> jvalue \<Rightarrow> ProcessResult option" where
  "entry_change pkg vp v = (case entry_result pkg vp v of Inl e \<Rightarrow> None | Inr r \<Rightarrow> r)"

definition entry_throws :: "PackageJson \<Rightarrow> precision \<Rightarrow> jvalue \<Rightarrow> bool" where
  "entry_throws pkg vp v = (case entry_result pkg vp v of Inl e \<Rightarrow> True | Inr r \<Rightarrow> False)"

definition entry_value :: "PackageJson \<Rightarrow> precision \<Rightarrow> jvalue \<Rightarrow> jvalue" where
  "entry_value pkg vp v =
     (case entry_change pkg vp v of None \<Rightarrow> v | Some r \<Rightarrow> JString (newImport r))"

definition entry_update :: "PackageJson \<Rightarrow> precision \<Rightarrow> jvalue \<Rightarrow> Update option" where
  "entry_update pkg vp v =
     map_option (\<lambda>r. \<lparr>name = name r, oldVersion = oldVersion r, newVersion = newVersion r\<rparr>)
       (entry_change pkg vp v)"

definition entry_updates :: "PackageJson \<Rightarrow> precision \<Rightarrow> (string \<times> jvalue) list \<Rightarrow> Update list" where
  "entry_updates pkg vp entries = List.map_filter (\<lambda>(k, v). entry_update pkg vp v) entries"

definition entry_values :: "PackageJson \<Rightarrow> precision \<Rightarrow> (string \<times> jvalue) list \<Rightarrow> (string \<times> jvalue) list" where
  "entry_values pkg vp entries = map (\<lambda>(k, v). (k, entry_value pkg vp v)) entries"

definition entries_ok :: "PackageJson \<Rightarrow> precision \<Rightarrow> (string \<times> jvalue) list \<Rightarrow> bool" where
  "entries_ok pkg vp entries = list_all (\<lambda>(k, v). \<not> entry_throws pkg vp v) entries"

section \<open>Shapes of versions and names\<close>

text \<open>
  A numeric version: cut at the dots, every piece is a non-empty run of digits (and
  \<open>split_dot\<close> always gives at least one piece). A name as the \<open>name\<close> group of each pattern
  admits it.
\<close>

definition numeric_version :: "string \<Rightarrow> bool" where
  "numeric_version v = list_all (\<lambda>x. x \<noteq> [] \<and> list_all is_digit x) (split_dot v)"

definition name_ok :: "registry \<Rightarrow> string \<Rightarrow> bool" where
  "name_ok registry nm =
     (case registry of
        Npm \<Rightarrow> nm \<noteq> [] \<and> CHR ''@'' \<notin> set nm
      | Jsr \<Rightarrow>
          (\<exists>scope pk. nm = CHR ''@'' # scope @ CHR ''/'' # pk
             \<and> scope \<noteq> [] \<and> CHR ''/'' \<notin> set scope \<and> CHR ''@'' \<notin> set scope
             \<and> pk \<noteq> [] \<and> CHR ''@'' \<notin> set pk \<and> CHR ''/'' \<notin> set pk))"

section \<open>A small world for the sync engine\<close>

text \<open>A world with a manifest and an import map under \<open>/w\<close>, and the options naming them.\<close>

definition demo_world :: "(string \<rightharpoonup> string) \<Rightarrow> (string \<times> jvalue) list \<Rightarrow> world" where
  "demo_world deps entries =
     \<lparr>files = [''/w/package.json'' \<mapsto>
                 Json \<lparr>imports' = None, dependencies = Some deps, devDependencies = None\<rparr>,
               ''/w/deno.json'' \<mapsto>
                 Json \<lparr>imports' = Some entries, dependencies = None, devDependencies = None\<rparr>],
      writes = [], console = []\<rparr>"

definition demo_options :: "precision option \<Rightarrow> SyncOptions" where
  "demo_options vp =
     \<lparr>denoJsonPath = ''/w/deno.json'', packageJsonPath = ''/w/package.json'',
      silent = None, versionPrecision = vp\<rparr>"

section \<open>Two small environments for the catalog resolver\<close>

text \<open>
  A workspace at \<open>/w\<close> with a package at \<open>/w/app\<close>. In the first the workspace document is
  in \<open>/w\<close>; in the second it is in the root directory \<open>/\<close>. The argument is what \<open>detect\<close>
  answers. Of the properties of built-in values the environments give one, the \<open>name\<close> of
  the function \<open>Object\<close>; every other read gives \<open>undefined\<close> in them.
\<close>

definition demo_env :: "string option \<Rightarrow> node_env" where
  "demo_env pm =
     \<lparr>detect = (\<lambda>cwd. pm), resolve = (\<lambda>p. p), root_of = (\<lambda>p. ''/''),
      join = (\<lambda>d f. if d = ''/'' then d @ f else d @ ''/'' @ f),
      dirname = (\<lambda>p. if p = ''/w/app'' then ''/w'' else ''/''),
      yaml_files = [''/w/pnpm-workspace.yaml'' \<mapsto>
        Yaml (Some \<lparr>catalog = Some [''zod'' \<mapsto> ''^3.22.0''],
                     catalogs = Some [''dev'' \<mapsto> [''vitest'' \<mapsto> ''^1.0.0'']]\<rparr>)],
      builtin_get = (\<lambda>k p. if k = ''constructor'' \<and> p = ''name''
                             then Inr (Some (Text ''Object'')) else Inr None)\<rparr>"

definition root_catalog_env :: "string option \<Rightarrow> node_env" where
  "root_catalog_env pm =
     \<lparr>detect = (\<lambda>cwd. pm), resolve = (\<lambda>p. p), root_of = (\<lambda>p. ''/''),
      join = (\<lambda>d f. if d = ''/'' then d @ f else d @ ''/'' @ f),
      dirname = (\<lambda>p. if p = ''/w/app'' then ''/w'' else ''/''),
      yaml_files = [''/pnpm-workspace.yaml'' \<mapsto>
        Yaml (Some \<lparr>catalog = Some [''zod'' \<mapsto> ''^3.22.0''], catalogs = None\<rparr>)],
      builtin_get = (\<lambda>k p. if k = ''constructor'' \<and> p = ''name''
                             then Inr (Some (Text ''Object'')) else Inr None)\<rparr>"

section \<open>Splitting and joining at dots\<close>

lemma split_dot_not_Nil [simp]: "split_dot s \<noteq> []"
  by (induction s) (auto split: list.splits)

lemma join_dot_Cons: "xs \<noteq> [] \<Longrightarrow> join_dot (x # xs) = x @ CHR ''.'' # join_dot xs"
  by (cases xs) auto

lemma join_split_dot [simp]: "join_dot (split_dot s) = s"
proof (induction s)
  case Nil
  show ?case by simp
next
  case (Cons c cs)
  obtain x xs where sp: "split_dot cs = x # xs"
    by (cases "split_dot cs") auto
  show ?case
  proof (cases "c = CHR ''.''")
    case True
    then show ?thesis using Cons by (simp add: join_dot_Cons)
  next
    case False
    then show ?thesis using Cons sp by (cases xs) auto
  qed
qed

lemma split_dot_no_dot: "x \<in> set (split_dot s) \<Longrightarrow> CHR ''.'' \<notin> set x"
  by (induction s arbitrary: x) (auto split: if_splits list.splits)

lemma split_dot_plain: "CHR ''.'' \<notin> set x \<Longrightarrow> split_dot x = [x]"
  by (induction x) auto

lemma split_dot_append_dot:
  "CHR ''.'' \<notin> set x \<Longrightarrow> split_dot (x @ CHR ''.'' # r) = x # split_dot r"
  by (induction x) auto

lemma split_join_dot:
  "xs \<noteq> [] \<Longrightarrow> \<forall>x \<in> set xs. CHR ''.'' \<notin> set x \<Longrightarrow> split_dot (join_dot xs) = xs"
proof (induction xs rule: join_dot.induct)
  case 1
  then show ?case by simp
next
  case (2 x)
  then show ?case by (simp add: split_dot_plain)
next
  case (3 x y ys)
  then show ?case by (simp add: split_dot_append_dot)
qed

lemma hd_split_dot: "hd (split_dot s) = takeWhile (\<lambda>c. c \<noteq> CHR ''.'') s"
  by (induction s) (auto split: list.splits)

lemma split_dot_formatVersion:
  "0 < n \<Longrightarrow> split_dot (formatVersion s n) = take n (split_dot s)"
  unfolding formatVersion_def
  by (rule split_join_dot) (auto dest: in_set_takeD split_dot_no_dot simp: take_eq_Nil)

lemma formatVersion_all: "length (split_dot s) \<le> n \<Longrightarrow> formatVersion s n = s"
  by (simp add: formatVersion_def)

section \<open>The two patterns exclude each other\<close>

lemma startsWith_Cons: "startsWith s (c # p) \<longleftrightarrow> (\<exists>t. s = c # t \<and> startsWith t p)"
  by (cases s) (auto simp: startsWith_def)

lemma match_npm_prefix: "match_npm s = Some g \<Longrightarrow> startsWith s ''npm:''"
  by (cases "startsWith s ''npm:''") (simp_all add: match_npm_def)

lemma match_jsr_prefix: "match_jsr s = Some g \<Longrightarrow> startsWith s ''jsr:@''"
  by (cases "startsWith s ''jsr:@''") (simp_all add: match_jsr_def)

lemma prefixes_exclusive: "startsWith s ''npm:'' \<Longrightarrow> \<not> startsWith s ''jsr:@''"
  by (auto simp: startsWith_Cons)

lemma match_pattern_exclusive:
  assumes "match_pattern r s = Some g" and "r' \<noteq> r"
  shows "match_pattern r' s = None"
proof (cases r)
  case Npm
  with assms have "startsWith s ''npm:''" and "r' = Jsr"
    by (auto simp: match_pattern_def dest: match_npm_prefix intro: registry.exhaust [of r'])
  then show ?thesis
    using match_jsr_prefix [of s] prefixes_exclusive [of s]
    by (cases "match_jsr s") (auto simp: match_pattern_def)
next
  case Jsr
  with assms have "startsWith s ''jsr:@''" and "r' = Npm"
    by (auto simp: match_pattern_def dest: match_jsr_prefix intro: registry.exhaust [of r'])
  then show ?thesis
    using match_npm_prefix [of s] prefixes_exclusive [of s]
    by (cases "match_npm s") (auto simp: match_pattern_def)
qed

section \<open>What a match says about the specifier\<close>

lemma digit_not_dot: "is_digit c \<Longrightarrow> c \<noteq> CHR ''.''"
  by (auto simp: is_digit_def)

lemma digits_no_dot: "\<forall>c \<in> set d. is_digit c \<Longrightarrow> CHR ''.'' \<notin> set d"
  using digit_not_dot by blast

lemma scan_dot_groups_Nil: "scan_dot_groups [] = ([], [])"
  by (subst scan_dot_groups.simps) simp

lemma scan_dot_groups_step:
  "takeWhile is_digit t \<noteq> [] \<Longrightarrow>
   scan_dot_groups (CHR ''.'' # t) =
     (case scan_dot_groups (dropWhile is_digit t) of
        (g, r) \<Rightarrow> (CHR ''.'' # takeWhile is_digit t @ g, r))"
  by (subst scan_dot_groups.simps) simp

lemma scan_dot_groups_stop:
  "\<not> (c = CHR ''.'' \<and> takeWhile is_digit t \<noteq> []) \<Longrightarrow> scan_dot_groups (c # t) = ([], c # t)"
  by (subst scan_dot_groups.simps) auto

lemma numeric_version_digits:
  "d \<noteq> [] \<Longrightarrow> \<forall>c \<in> set d. is_digit c \<Longrightarrow> numeric_version d"
  by (simp add: numeric_version_def split_dot_plain digits_no_dot list_all_iff)

lemma numeric_version_Cons:
  "d \<noteq> [] \<Longrightarrow> \<forall>c \<in> set d. is_digit c \<Longrightarrow> numeric_version v
   \<Longrightarrow> numeric_version (d @ CHR ''.'' # v)"
  by (simp add: numeric_version_def split_dot_append_dot digits_no_dot list_all_iff)

lemma scan_dot_groups_sound:
  "scan_dot_groups s = (g, r) \<Longrightarrow>
   s = g @ r \<and> (\<forall>d. d \<noteq> [] \<longrightarrow> (\<forall>c \<in> set d. is_digit c) \<longrightarrow> numeric_version (d @ g))"
proof (induction "length s" arbitrary: s g r rule: less_induct)
  case less
  show ?case
  proof (cases s)
    case Nil
    with less.prems show ?thesis by (simp add: scan_dot_groups_Nil numeric_version_digits)
  next
    case (Cons c t)
    show ?thesis
    proof (cases "c = CHR ''.'' \<and> takeWhile is_digit t \<noteq> []")
      case False
      with less.prems Cons show ?thesis
        by (simp add: scan_dot_groups_stop numeric_version_digits)
    next
      case True
      obtain g' r' where rec: "scan_dot_groups (dropWhile is_digit t) = (g', r')"
        by (cases "scan_dot_groups (dropWhile is_digit t)")
      have "length (dropWhile is_digit t) < length s"
        using Cons length_dropWhile_le [of is_digit t] by simp
      from less.hyps [OF this rec]
      have ih: "dropWhile is_digit t = g' @ r'"
        "\<And>d. d \<noteq> [] \<Longrightarrow> \<forall>c \<in> set d. is_digit c \<Longrightarrow> numeric_version (d @ g')"
        by blast+
      from less.prems Cons True rec
      have g: "g = CHR ''.'' # takeWhile is_digit t @ g'" and r: "r = r'"
        by (simp_all add: scan_dot_groups_step)
      have "t = takeWhile is_digit t @ dropWhile is_digit t" by simp
      then have s: "s = g @ r" using Cons True g r ih(1) by (metis append_Cons append_assoc)
      have tw: "\<forall>c \<in> set (takeWhile is_digit t). is_digit c"
        by (auto dest: set_takeWhileD)
      have "numeric_version (d @ g)" if "d \<noteq> []" "\<forall>c \<in> set d. is_digit c" for d
        using numeric_version_Cons [OF that ih(2) [OF _ tw]] True g by simp
      with s show ?thesis by blast
    qed
  qed
qed

lemma scan_version_sound:
  assumes "scan_version s = Some (v, r)"
  shows "s = v @ r \<and> numeric_version v"
proof -
  from assms have ne: "takeWhile is_digit s \<noteq> []"
    by (auto simp: scan_version_def split: if_splits)
  obtain g r' where rec: "scan_dot_groups (dropWhile is_digit s) = (g, r')"
    by (cases "scan_dot_groups (dropWhile is_digit s)")
  with assms ne have v: "v = takeWhile is_digit s @ g" and r: "r = r'"
    by (simp_all add: scan_version_def)
  from scan_dot_groups_sound [OF rec]
  have d: "dropWhile is_digit s = g @ r'"
    and n: "\<And>d. d \<noteq> [] \<Longrightarrow> \<forall>c \<in> set d. is_digit c \<Longrightarrow> numeric_version (d @ g)"
    by blast+
  have tw: "\<forall>c \<in> set (takeWhile is_digit s). is_digit c"
    by (auto dest: set_takeWhileD)
  have "s = takeWhile is_digit s @ dropWhile is_digit s" by simp
  then have "s = v @ r" using v r d by (metis append_assoc)
  moreover have "numeric_version v" using n [OF ne tw] v by simp
  ultimately show ?thesis by blast
qed

lemma scan_subpath_sound:
  "scan_subpath r = Some sp \<Longrightarrow>
   r = (case sp of None \<Rightarrow> [] | Some p \<Rightarrow> p) \<and> (r = [] \<or> (\<exists>t. r = CHR ''/'' # t))"
  by (auto simp: scan_subpath_def split: list.splits if_splits)

lemma scan_version_subpath_sound:
  assumes "scan_version_subpath nm s = Some (nm', v, sp)"
  shows "nm' = nm \<and> numeric_version v
     \<and> s = v @ (case sp of None \<Rightarrow> [] | Some p \<Rightarrow> p)
     \<and> (\<exists>r. scan_version s = Some (v, r) \<and> scan_subpath r = Some sp)"
proof -
  from assms obtain r where sv: "scan_version s = Some (v, r)" and ss: "scan_subpath r = Some sp"
    and nm: "nm' = nm"
    by (auto simp: scan_version_subpath_def split: option.splits)
  from scan_version_sound [OF sv] scan_subpath_sound [OF ss] sv ss nm
  show ?thesis by auto
qed

lemma startsWith_append: "startsWith s p \<Longrightarrow> s = p @ drop (length p) s"
  by (metis append_take_drop_id startsWith_def)

lemma dropWhile_hd: "dropWhile P xs = c # r \<Longrightarrow> \<not> P c"
  by (metis hd_dropWhile list.distinct(1) list.sel(1))

lemma match_npm_sound:
  assumes "match_npm s = Some (nm, v, sp)"
  shows "name_ok Npm nm \<and> numeric_version v
     \<and> s = ''npm:'' @ nm @ ''@'' @ v @ (case sp of None \<Rightarrow> [] | Some p \<Rightarrow> p)"
proof -
  define r where "r = drop 4 s"
  from assms have sw: "startsWith s ''npm:''" by (rule match_npm_prefix)
  from startsWith_append [OF sw] have s: "s = ''npm:'' @ r" by (simp add: r_def eval_nat_numeral)
  define n where "n = takeWhile (\<lambda>c. c \<noteq> CHR ''@'') r"
  from assms sw have ne: "n \<noteq> []"
    by (auto simp: match_npm_def Let_def n_def r_def split: if_splits)
  from assms sw ne obtain c r' where dw: "dropWhile (\<lambda>c. c \<noteq> CHR ''@'') r = c # r'"
    and sv: "scan_version_subpath n r' = Some (nm, v, sp)"
    by (auto simp: match_npm_def Let_def n_def r_def split: if_splits list.splits)
  from dropWhile_hd [OF dw] have c: "c = CHR ''@''" by simp
  have "r = n @ dropWhile (\<lambda>c. c \<noteq> CHR ''@'') r" by (simp add: n_def)
  then have r: "r = n @ CHR ''@'' # r'" using dw c by simp
  have noat: "CHR ''@'' \<notin> set n" by (auto simp: n_def dest: set_takeWhileD)
  from scan_version_subpath_sound [OF sv]
  have "nm = n" "numeric_version v" "r' = v @ (case sp of None \<Rightarrow> [] | Some p \<Rightarrow> p)"
    by blast+
  with s r ne noat show ?thesis by (simp add: name_ok_def)
qed

lemma match_jsr_sound:
  assumes "match_jsr s = Some (nm, v, sp)"
  shows "name_ok Jsr nm \<and> numeric_version v
     \<and> s = ''jsr:'' @ nm @ ''@'' @ v @ (case sp of None \<Rightarrow> [] | Some p \<Rightarrow> p)"
proof -
  define r where "r = drop 5 s"
  from assms have sw: "startsWith s ''jsr:@''" by (rule match_jsr_prefix)
  from startsWith_append [OF sw] have s: "s = ''jsr:@'' @ r" by (simp add: r_def eval_nat_numeral)
  define scope where "scope = takeWhile (\<lambda>c. c \<noteq> CHR ''/'' \<and> c \<noteq> CHR ''@'') r"
  from assms sw have ne1: "scope \<noteq> []"
    by (auto simp: match_jsr_def Let_def scope_def r_def split: if_splits)
  from assms sw ne1 obtain c r' where dw1: "dropWhile (\<lambda>c. c \<noteq> CHR ''/'' \<and> c \<noteq> CHR ''@'') r = c # r'"
    and c: "c = CHR ''/''"
    by (auto simp: match_jsr_def Let_def scope_def r_def split: if_splits list.splits)
  define pk where "pk = takeWhile (\<lambda>c. c \<noteq> CHR ''@'' \<and> c \<noteq> CHR ''/'') r'"
  from assms sw ne1 dw1 c have ne2: "pk \<noteq> []"
    by (auto simp: match_jsr_def Let_def scope_def r_def pk_def split: if_splits)
  from assms sw ne1 dw1 c ne2 obtain d r'' where
    dw2: "dropWhile (\<lambda>c. c \<noteq> CHR ''@'' \<and> c \<noteq> CHR ''/'') r' = d # r''" and d: "d = CHR ''@''"
    and sv: "scan_version_subpath (CHR ''@'' # scope @ CHR ''/'' # pk) r'' = Some (nm, v, sp)"
    by (auto simp: match_jsr_def Let_def scope_def r_def pk_def split: if_splits list.splits)
  have "r = scope @ dropWhile (\<lambda>c. c \<noteq> CHR ''/'' \<and> c \<noteq> CHR ''@'') r" by (simp add: scope_def)
  then have r: "r = scope @ CHR ''/'' # r'" using dw1 c by simp
  have "r' = pk @ dropWhile (\<lambda>c. c \<noteq> CHR ''@'' \<and> c \<noteq> CHR ''/'') r'" by (simp add: pk_def)
  then have r': "r' = pk @ CHR ''@'' # r''" using dw2 d by simp
  have no1: "CHR ''/'' \<notin> set scope \<and> CHR ''@'' \<notin> set scope" by (auto simp: scope_def dest: set_takeWhileD)
  have no2: "CHR ''/'' \<notin> set pk \<and> CHR ''@'' \<notin> set pk" by (auto simp: pk_def dest: set_takeWhileD)
  from scan_version_subpath_sound [OF sv]
  have nm: "nm = CHR ''@'' # scope @ CHR ''/'' # pk" and nv: "numeric_version v"
    and r'': "r'' = v @ (case sp of None \<Rightarrow> [] | Some p \<Rightarrow> p)"
    by blast+
  have "name_ok Jsr nm" using nm ne1 ne2 no1 no2 by (auto simp: name_ok_def)
  moreover have "s = ''jsr:'' @ nm @ ''@'' @ v @ (case sp of None \<Rightarrow> [] | Some p \<Rightarrow> p)"
    using s r r' r'' nm by simp
  ultimately show ?thesis using nv by blast
qed

lemma match_pattern_sound:
  assumes "match_pattern r s = Some (nm, v, sp)"
  shows "name_ok r nm \<and> numeric_version v
     \<and> s = registry_text r @ '':'' @ nm @ ''@'' @ v @ (case sp of None \<Rightarrow> [] | Some p \<Rightarrow> p)"
proof (cases r)
  case Npm
  with assms match_npm_sound [of s nm v sp] show ?thesis
    by (simp add: match_pattern_def registry_text_def)
next
  case Jsr
  with assms match_jsr_sound [of s nm v sp] show ?thesis
    by (simp add: match_pattern_def registry_text_def)
qed

section \<open>Reading a rebuilt specifier\<close>

lemma match_npm_rebuilt:
  assumes "name_ok Npm nm"
  shows "match_npm (''npm:'' @ nm @ ''@'' @ rest) = scan_version_subpath nm rest"
proof -
  from assms have ne: "nm \<noteq> []" and noat: "\<forall>c \<in> set nm. c \<noteq> CHR ''@''"
    by (auto simp: name_ok_def)
  have tw: "takeWhile (\<lambda>c. c \<noteq> CHR ''@'') (nm @ CHR ''@'' # rest) = nm"
    using noat by (simp add: takeWhile_append2)
  have dw: "dropWhile (\<lambda>c. c \<noteq> CHR ''@'') (nm @ CHR ''@'' # rest) = CHR ''@'' # rest"
    using noat by (simp add: dropWhile_append2)
  show ?thesis
    using ne tw dw by (simp add: match_npm_def startsWith_def)
qed

lemma match_jsr_rebuilt:
  assumes "name_ok Jsr nm"
  shows "match_jsr (''jsr:'' @ nm @ ''@'' @ rest) = scan_version_subpath nm rest"
proof -
  from assms obtain scope pk where nm: "nm = CHR ''@'' # scope @ CHR ''/'' # pk"
    and ne: "scope \<noteq> []" "pk \<noteq> []"
    and no1: "\<forall>c \<in> set scope. c \<noteq> CHR ''/'' \<and> c \<noteq> CHR ''@''"
    and no2: "\<forall>c \<in> set pk. c \<noteq> CHR ''@'' \<and> c \<noteq> CHR ''/''"
    by (auto simp: name_ok_def)
  let ?r = "scope @ CHR ''/'' # pk @ CHR ''@'' # rest"
  have tw1: "takeWhile (\<lambda>c. c \<noteq> CHR ''/'' \<and> c \<noteq> CHR ''@'') ?r = scope"
    using no1 by (simp add: takeWhile_append2)
  have dw1: "dropWhile (\<lambda>c. c \<noteq> CHR ''/'' \<and> c \<noteq> CHR ''@'') ?r = CHR ''/'' # pk @ CHR ''@'' # rest"
    using no1 by (simp add: dropWhile_append2)
  have tw2: "takeWhile (\<lambda>c. c \<noteq> CHR ''@'' \<and> c \<noteq> CHR ''/'') (pk @ CHR ''@'' # rest) = pk"
    using no2 by (simp add: takeWhile_append2)
  have dw2: "dropWhile (\<lambda>c. c \<noteq> CHR ''@'' \<and> c \<noteq> CHR ''/'') (pk @ CHR ''@'' # rest) = CHR ''@'' # rest"
    using no2 by (simp add: dropWhile_append2)
  have "''jsr:'' @ nm @ ''@'' @ rest = ''jsr:@'' @ ?r" by (simp add: nm)
  then show ?thesis
    using ne tw1 dw1 tw2 dw2 by (simp add: match_jsr_def startsWith_def nm)
qed

lemma match_pattern_rebuilt:
  "name_ok r nm \<Longrightarrow>
   match_pattern r (registry_text r @ '':'' @ nm @ ''@'' @ rest) = scan_version_subpath nm rest"
  using match_npm_rebuilt [of nm rest] match_jsr_rebuilt [of nm rest]
  by (cases r) (simp_all add: match_pattern_def registry_text_def)

lemma match_pattern_other_prefix:
  "r' \<noteq> r \<Longrightarrow> match_pattern r' (registry_text r @ '':'' @ x) = None"
  by (cases r; cases r')
    (simp_all add: match_pattern_def registry_text_def match_npm_def match_jsr_def startsWith_def)

lemma scan_dot_groups_extend:
  "scan_dot_groups s = (s, []) \<Longrightarrow> \<not> is_digit c \<Longrightarrow> c \<noteq> CHR ''.''
   \<Longrightarrow> scan_dot_groups (s @ c # rest) = (s, c # rest)"
proof (induction "length s" arbitrary: s rule: less_induct)
  case less
  show ?case
  proof (cases s)
    case Nil
    with less.prems show ?thesis by (simp add: scan_dot_groups_stop)
  next
    case (Cons x t)
    have go: "x = CHR ''.'' \<and> takeWhile is_digit t \<noteq> []"
    proof (rule ccontr)
      assume "\<not> ?thesis"
      then have "scan_dot_groups (x # t) = ([], x # t)" by (rule scan_dot_groups_stop)
      with less.prems(1) Cons show False by simp
    qed
    obtain g' r' where rec: "scan_dot_groups (dropWhile is_digit t) = (g', r')"
      by (cases "scan_dot_groups (dropWhile is_digit t)")
    from less.prems(1) Cons go rec have "r' = []"
      by (simp add: scan_dot_groups_step)
    with scan_dot_groups_sound [OF rec] rec
    have full: "scan_dot_groups (dropWhile is_digit t) = (dropWhile is_digit t, [])" by simp
    have "length (dropWhile is_digit t) < length s"
      using Cons length_dropWhile_le [of is_digit t] by simp
    from less.hyps [OF this full less.prems(2,3)]
    have ih: "scan_dot_groups (dropWhile is_digit t @ c # rest) = (dropWhile is_digit t, c # rest)" .
    have tw: "takeWhile is_digit (t @ c # rest) = takeWhile is_digit t"
      using less.prems(2) by (simp add: takeWhile_tail)
    have dw: "dropWhile is_digit (t @ c # rest) = dropWhile is_digit t @ c # rest"
      using less.prems(2) by (simp add: dropWhile_append3)
    have "scan_dot_groups (CHR ''.'' # (t @ c # rest))
        = (CHR ''.'' # takeWhile is_digit t @ dropWhile is_digit t, c # rest)"
      using go ih by (simp add: scan_dot_groups_step tw dw)
    then show ?thesis using Cons go by simp
  qed
qed

lemma scan_version_extend:
  assumes "scan_version v = Some (v, [])" and "\<not> is_digit c" and "c \<noteq> CHR ''.''"
  shows "scan_version (v @ c # rest) = Some (v, c # rest)"
proof -
  from assms(1) have ne: "takeWhile is_digit v \<noteq> []"
    by (auto simp: scan_version_def split: if_splits)
  obtain g r' where rec: "scan_dot_groups (dropWhile is_digit v) = (g, r')"
    by (cases "scan_dot_groups (dropWhile is_digit v)")
  with assms(1) ne have "r' = []" by (simp add: scan_version_def)
  with scan_dot_groups_sound [OF rec] rec
  have full: "scan_dot_groups (dropWhile is_digit v) = (dropWhile is_digit v, [])" by simp
  have tw: "takeWhile is_digit (v @ c # rest) = takeWhile is_digit v"
    using assms(2) by (simp add: takeWhile_tail)
  have dw: "dropWhile is_digit (v @ c # rest) = dropWhile is_digit v @ c # rest"
    using assms(2) by (simp add: dropWhile_append3)
  show ?thesis
    using ne scan_dot_groups_extend [OF full assms(2,3), of rest]
    by (simp add: scan_version_def tw dw)
qed




section \<open>The matcher accepts exactly the language of the pattern\<close>

lemma takeWhile_digits: "\<forall>c \<in> set d. is_digit c \<Longrightarrow> takeWhile is_digit d = d"
  by (induction d) auto

lemma dropWhile_digits: "\<forall>c \<in> set d. is_digit c \<Longrightarrow> dropWhile is_digit d = []"
  by (induction d) auto

lemma dot_not_digit: "\<not> is_digit CHR ''.''"
  by (simp add: is_digit_def)

lemma takeWhile_digits_dot:
  "\<forall>c \<in> set d. is_digit c \<Longrightarrow> takeWhile is_digit (d @ CHR ''.'' # x) = d"
  by (simp add: takeWhile_tail dot_not_digit takeWhile_digits)

lemma dropWhile_digits_dot:
  "\<forall>c \<in> set d. is_digit c \<Longrightarrow> dropWhile is_digit (d @ CHR ''.'' # x) = CHR ''.'' # x"
  by (simp add: dropWhile_append3 dot_not_digit dropWhile_digits)

lemma scan_dot_groups_joined:
  "xs \<noteq> [] \<Longrightarrow> \<forall>x \<in> set xs. x \<noteq> [] \<and> (\<forall>c \<in> set x. is_digit c)
   \<Longrightarrow> scan_dot_groups (CHR ''.'' # join_dot xs) = (CHR ''.'' # join_dot xs, [])"
proof (induction xs rule: join_dot.induct)
  case 1
  then show ?case by simp
next
  case (2 x)
  then show ?case
    by (simp add: scan_dot_groups_step takeWhile_digits dropWhile_digits scan_dot_groups_Nil
        del: scan_dot_groups.simps)
next
  case (3 x y ys)
  then have ih: "scan_dot_groups (CHR ''.'' # join_dot (y # ys)) = (CHR ''.'' # join_dot (y # ys), [])"
    by (simp del: scan_dot_groups.simps)
  from 3 have x: "x \<noteq> []" "\<forall>c \<in> set x. is_digit c" by simp_all
  show ?case
    using x ih
    by (simp add: scan_dot_groups_step takeWhile_digits_dot dropWhile_digits_dot dot_not_digit
        del: scan_dot_groups.simps)
qed

lemma scan_version_numeric:
  assumes "numeric_version v"
  shows "scan_version v = Some (v, [])"
proof -
  from assms have all: "\<forall>x \<in> set (split_dot v). x \<noteq> [] \<and> (\<forall>c \<in> set x. is_digit c)"
    by (simp add: numeric_version_def list_all_iff)
  obtain d rest where sp: "split_dot v = d # rest" by (cases "split_dot v") simp_all
  from all sp have d: "d \<noteq> []" "\<forall>c \<in> set d. is_digit c" by simp_all
  have v: "v = join_dot (d # rest)" using sp by (metis join_split_dot)
  show ?thesis
  proof (cases rest)
    case Nil
    with v d show ?thesis
      by (simp add: scan_version_def takeWhile_digits dropWhile_digits scan_dot_groups_Nil
          del: scan_dot_groups.simps)
  next
    case (Cons y ys)
    from all sp Cons have "\<forall>x \<in> set (y # ys). x \<noteq> [] \<and> (\<forall>c \<in> set x. is_digit c)" by simp
    from scan_dot_groups_joined [OF _ this]
    have "scan_dot_groups (CHR ''.'' # join_dot (y # ys)) = (CHR ''.'' # join_dot (y # ys), [])"
      by simp
    with v d Cons show ?thesis
      by (simp add: scan_version_def takeWhile_digits_dot dropWhile_digits_dot dot_not_digit
          del: scan_dot_groups.simps)
  qed
qed

lemma scan_subpath_iff:
  "scan_subpath r = Some sp \<longleftrightarrow>
     r = (case sp of None \<Rightarrow> [] | Some q \<Rightarrow> q)
     \<and> (case sp of None \<Rightarrow> True
         | Some q \<Rightarrow> \<exists>t. q = CHR ''/'' # t \<and> (\<forall>d \<in> set t. \<not> is_line_terminator d))"
  by (cases r; cases sp) (auto simp: scan_subpath_def)

lemma match_pattern_iff:
  "match_pattern r s = Some (nm, v, sp) \<longleftrightarrow>
     s = registry_text r @ '':'' @ nm @ ''@'' @ v @ (case sp of None \<Rightarrow> [] | Some q \<Rightarrow> q)
     \<and> name_ok r nm \<and> numeric_version v
     \<and> (case sp of None \<Rightarrow> True
         | Some q \<Rightarrow> \<exists>t. q = CHR ''/'' # t \<and> (\<forall>d \<in> set t. \<not> is_line_terminator d))"
  (is "?match \<longleftrightarrow> ?shape")
proof
  assume m: ?match
  from match_pattern_sound [OF m]
  have ok: "name_ok r nm" and nv: "numeric_version v"
    and s: "s = registry_text r @ '':'' @ nm @ ''@'' @ (v @ (case sp of None \<Rightarrow> [] | Some q \<Rightarrow> q))"
    by simp_all
  from m s match_pattern_rebuilt [OF ok, of "v @ (case sp of None \<Rightarrow> [] | Some q \<Rightarrow> q)"]
  have "scan_version_subpath nm (v @ (case sp of None \<Rightarrow> [] | Some q \<Rightarrow> q)) = Some (nm, v, sp)"
    by simp
  from scan_version_subpath_sound [OF this]
  obtain rr where "scan_subpath rr = Some sp" by blast
  then have "case sp of None \<Rightarrow> True
         | Some q \<Rightarrow> \<exists>t. q = CHR ''/'' # t \<and> (\<forall>d \<in> set t. \<not> is_line_terminator d)"
    by (simp add: scan_subpath_iff)
  with ok nv s show ?shape by simp
next
  assume sh: ?shape
  then have ok: "name_ok r nm" and nv: "numeric_version v"
    and s: "s = registry_text r @ '':'' @ nm @ ''@'' @ (v @ (case sp of None \<Rightarrow> [] | Some q \<Rightarrow> q))"
    by simp_all
  have "scan_version_subpath nm (v @ (case sp of None \<Rightarrow> [] | Some q \<Rightarrow> q)) = Some (nm, v, sp)"
  proof (cases sp)
    case None
    with scan_version_numeric [OF nv] show ?thesis
      by (simp add: scan_version_subpath_def scan_subpath_def)
  next
    case (Some q)
    with sh obtain t where q: "q = CHR ''/'' # t" and t: "\<forall>d \<in> set t. \<not> is_line_terminator d"
      by auto
    have "scan_version (v @ CHR ''/'' # t) = Some (v, CHR ''/'' # t)"
      by (rule scan_version_extend [OF scan_version_numeric [OF nv]]) (simp_all add: is_digit_def)
    with Some q t show ?thesis
      by (simp add: scan_version_subpath_def scan_subpath_def)
  qed
  with s match_pattern_rebuilt [OF ok, of "v @ (case sp of None \<Rightarrow> [] | Some q \<Rightarrow> q)"]
  show ?match by simp
qed

section \<open>The marker and the loop of the catalog resolver\<close>

lemma length_catalog_marker: "length ''catalog:'' = 8"
  by simp

lemma parseCatalogReference_None:
  "\<not> startsWith version ''catalog:'' \<Longrightarrow> parseCatalogReference version = None"
  by (simp add: parseCatalogReference_def)

lemma parseCatalogReference_Some:
  "startsWith version ''catalog:'' \<Longrightarrow>
   parseCatalogReference version
     = Some (if trim (drop 8 version) = [] then ''default'' else trim (drop 8 version))"
  unfolding parseCatalogReference_def Let_def length_catalog_marker by simp

lemma findWorkspaceRoot_loop_null:
  "(dirname E ^^ n) p = root
   \<Longrightarrow> \<forall>i<n. yaml_files E (join E ((dirname E ^^ i) p) ''pnpm-workspace.yaml'') = None
   \<Longrightarrow> findWorkspaceRoot_loop E root p = Some None"
proof (induction n arbitrary: p)
  case 0
  then show ?case by (simp add: findWorkspaceRoot_loop.simps)
next
  case (Suc n)
  show ?case
  proof (cases "p = root")
    case True
    then show ?thesis by (simp add: findWorkspaceRoot_loop.simps)
  next
    case False
    from Suc.prems(2) have here: "yaml_files E (join E p ''pnpm-workspace.yaml'') = None"
      by (metis funpow_0 zero_less_Suc)
    have up: "(dirname E ^^ n) (dirname E p) = root"
      using Suc.prems(1) by (simp add: funpow_swap1)
    have none: "\<forall>i<n. yaml_files E (join E ((dirname E ^^ i) (dirname E p)) ''pnpm-workspace.yaml'') = None"
    proof (intro allI impI)
      fix i assume "i < n"
      then have "Suc i < Suc n" by simp
      with Suc.prems(2) have "yaml_files E (join E ((dirname E ^^ Suc i) p) ''pnpm-workspace.yaml'') = None"
        by blast
      then show "yaml_files E (join E ((dirname E ^^ i) (dirname E p)) ''pnpm-workspace.yaml'') = None"
        by (simp add: funpow_swap1)
    qed
    have "findWorkspaceRoot_loop E root p = findWorkspaceRoot_loop E root (dirname E p)"
      using False here by (subst findWorkspaceRoot_loop.simps) simp
    also have "\<dots> = Some None" by (rule Suc.IH [OF up none])
    finally show ?thesis .
  qed
qed

lemma findWorkspaceRoot_loop_not_root:
  "findWorkspaceRoot_loop E root p = Some y \<Longrightarrow> y \<noteq> Some root"
proof (rule findWorkspaceRoot_loop.raw_induct [where P = "\<lambda>E' root' p' y'. y' \<noteq> Some root'"])
  fix loop E' root' p' y'
  assume "\<And>E root p y. loop E root p = Some y \<Longrightarrow> y \<noteq> Some root"
    and "(if p' = root' then Some None
          else if yaml_files E' (join E' p' ''pnpm-workspace.yaml'') \<noteq> None
               then Some (Some p')
               else loop E' root' (dirname E' p')) = Some y'"
  then show "y' \<noteq> Some root'" by (auto split: if_splits)
qed

section \<open>Reading a property, case by case\<close>

lemma get_property_own: "obj key = Some v \<Longrightarrow> get_property obj key = Own v"
  by (simp add: get_property_def)

lemma get_property_inherited:
  "obj key = None \<Longrightarrow> key \<in> set object_prototype_names \<Longrightarrow> get_property obj key = Inherited key"
  by (simp add: get_property_def)

lemma get_property_missing:
  "obj key = None \<Longrightarrow> key \<notin> set object_prototype_names \<Longrightarrow> get_property obj key = Missing"
  by (simp add: get_property_def)

lemma section_version_cases:
  "section_version sect nm =
     (case sect of
        None \<Rightarrow> Inr None
      | Some deps \<Rightarrow>
          (case deps nm of
             Some r \<Rightarrow> Inr (Some (strip_leading_non_digits r))
           | None \<Rightarrow> if nm \<in> set object_prototype_names then Inl TypeError else Inr None))"
  by (simp add: section_version_def get_property_def split: option.splits)

lemma section_version_error: "section_version sect nm = Inl e \<Longrightarrow> e = TypeError \<and> nm \<in> set object_prototype_names"
  by (auto simp: section_version_cases split: option.splits if_splits)

lemma section_version_ordinary:
  "nm \<notin> set object_prototype_names \<Longrightarrow>
   section_version sect nm
     = Inr (case sect of None \<Rightarrow> None | Some deps \<Rightarrow> map_option strip_leading_non_digits (deps nm))"
  by (simp add: section_version_cases split: option.splits)

text \<open>A name the jsr pattern accepts starts with \<open>@\<close>; no property of \<open>Object.prototype\<close> does.\<close>

lemma scoped_name_not_inherited: "CHR ''@'' # rest \<notin> set object_prototype_names"
  by (simp add: object_prototype_names_def)

section \<open>\<open>processImport\<close>, case by case\<close>

lemma processImport_no_match: "match_pattern r s = None \<Longrightarrow> processImport s r pkg vp = Inr None"
  by (simp add: processImport_def)

lemma processImport_matched:
  assumes "match_pattern r s = Some (nm, version, subpath)"
    and "pkgVersion_of pkg nm = Inr (Some candidate)"
  shows "processImport s r pkg vp =
     (if candidate = version \<or> finalVersion_of vp version candidate = version then Inr None
      else Inr (Some \<lparr>name = nm, oldVersion = version,
                 newVersion = finalVersion_of vp version candidate,
                 newImport = registry_text r @ '':'' @ nm @ ''@''
                   @ finalVersion_of vp version candidate
                   @ (case subpath of None \<Rightarrow> [] | Some p \<Rightarrow> p)\<rparr>))"
  using assms by (simp add: processImport_def Let_def)

lemma processImport_absent:
  "match_pattern r s = Some (nm, version, subpath) \<Longrightarrow> pkgVersion_of pkg nm = Inr None
   \<Longrightarrow> processImport s r pkg vp = Inr None"
  by (simp add: processImport_def)

lemma processImport_throws:
  "match_pattern r s = Some (nm, version, subpath) \<Longrightarrow> pkgVersion_of pkg nm = Inl e
   \<Longrightarrow> processImport s r pkg vp = Inl e"
  by (simp add: processImport_def)

lemma sync_entry_unchanged:
  "processImport s Npm pkg vp = Inr None \<Longrightarrow> processImport s Jsr pkg vp = Inr None
   \<Longrightarrow> sync_entry pkg vp (k, JString s) st = Inr st"
  by (simp add: sync_entry_def split: prod.splits)

lemma pkgVersion_of_dev:
  "devDependencies pkg = Some dev \<Longrightarrow> dev nm = Some d
   \<Longrightarrow> pkgVersion_of pkg nm = Inr (Some (strip_leading_non_digits d))"
  by (simp add: pkgVersion_of_def section_version_cases)

lemma pkgVersion_of_deps:
  "\<forall>dev. devDependencies pkg = Some dev \<longrightarrow> dev nm = None
   \<Longrightarrow> nm \<notin> set object_prototype_names
   \<Longrightarrow> dependencies pkg = Some deps \<Longrightarrow> deps nm = Some d
   \<Longrightarrow> pkgVersion_of pkg nm = Inr (Some (strip_leading_non_digits d))"
  by (auto simp: pkgVersion_of_def section_version_cases split: option.splits)

lemma pkgVersion_of_absent:
  "\<forall>dev. devDependencies pkg = Some dev \<longrightarrow> dev nm = None
   \<Longrightarrow> \<forall>deps. dependencies pkg = Some deps \<longrightarrow> deps nm = None
   \<Longrightarrow> nm \<notin> set object_prototype_names
   \<Longrightarrow> pkgVersion_of pkg nm = Inr None"
  by (auto simp: pkgVersion_of_def section_version_cases split: option.splits)

text \<open>
  A name that \<open>Object.prototype\<close> has and no section declares: the lookup throws as soon as
  one of the two sections is there.
\<close>

lemma pkgVersion_of_inherited:
  "\<forall>dev. devDependencies pkg = Some dev \<longrightarrow> dev nm = None
   \<Longrightarrow> \<forall>deps. dependencies pkg = Some deps \<longrightarrow> deps nm = None
   \<Longrightarrow> nm \<in> set object_prototype_names
   \<Longrightarrow> devDependencies pkg \<noteq> None \<or> dependencies pkg \<noteq> None
   \<Longrightarrow> pkgVersion_of pkg nm = Inl TypeError"
  by (auto simp: pkgVersion_of_def section_version_cases split: option.splits)

lemma pkgVersion_of_error:
  "pkgVersion_of pkg nm = Inl e \<Longrightarrow> e = TypeError \<and> nm \<in> set object_prototype_names"
  by (auto simp: pkgVersion_of_def split: sum.splits option.splits dest: section_version_error)

lemma processImport_error:
  "processImport s r pkg vp = Inl e \<Longrightarrow> e = TypeError \<and> r = Npm"
proof -
  assume a: "processImport s r pkg vp = Inl e"
  then obtain nm v sp where m: "match_pattern r s = Some (nm, v, sp)"
    by (cases "match_pattern r s") (auto simp: processImport_def)
  with a have p: "pkgVersion_of pkg nm = Inl e"
    by (auto simp: processImport_def Let_def split: sum.splits option.splits if_splits)
  from pkgVersion_of_error [OF p] have e: "e = TypeError" and inh: "nm \<in> set object_prototype_names"
    by simp_all
  have "r = Npm"
  proof (cases r)
    case Jsr
    with match_pattern_sound [OF m] obtain rest where "nm = CHR ''@'' # rest"
      by (auto simp: name_ok_def)
    with inh scoped_name_not_inherited show ?thesis by blast
  qed simp
  with e show ?thesis by simp
qed

lemma processImport_cong_version:
  "match_pattern r s = Some (nm, version, subpath) \<Longrightarrow> pkgVersion_of pkg nm = pkgVersion_of pkg' nm
   \<Longrightarrow> processImport s r pkg vp = processImport s r pkg' vp"
  by (simp add: processImport_def)

lemma both_registries_None:
  assumes "match_pattern r s = Some g" and "processImport s r pkg vp = Inr None"
  shows "processImport s Npm pkg vp = Inr None \<and> processImport s Jsr pkg vp = Inr None"
proof -
  have other: "processImport s r' pkg vp = Inr None" if "r' \<noteq> r" for r'
    using match_pattern_exclusive [OF assms(1) that] by (rule processImport_no_match)
  show ?thesis using assms(2) other [of Npm] other [of Jsr] by (cases r) auto
qed

text \<open>
  The development section decides: when it declares the name, the result is the one
  computed from its stripped range, whatever the other section holds.
\<close>

lemma development_section_wins:
  assumes "match_pattern r s = Some (nm, version, subpath)"
    and "devDependencies pkg = Some dev" and "dev nm = Some d"
  shows "processImport s r pkg vp =
     (if strip_leading_non_digits d = version
         \<or> finalVersion_of vp version (strip_leading_non_digits d) = version then Inr None
      else Inr (Some \<lparr>name = nm, oldVersion = version,
                 newVersion = finalVersion_of vp version (strip_leading_non_digits d),
                 newImport = registry_text r @ '':'' @ nm @ ''@''
                   @ finalVersion_of vp version (strip_leading_non_digits d)
                   @ (case subpath of None \<Rightarrow> [] | Some p \<Rightarrow> p)\<rparr>))"
  by (rule processImport_matched [OF assms(1) pkgVersion_of_dev [OF assms(2,3)]])

text \<open>A name that no section declares and \<open>Object.prototype\<close> does not have is skipped.\<close>

lemma undeclared_name_skipped:
  assumes "match_pattern r s = Some (nm, version, subpath)"
    and "\<forall>dev. devDependencies pkg = Some dev \<longrightarrow> dev nm = None"
    and "\<forall>deps. dependencies pkg = Some deps \<longrightarrow> deps nm = None"
    and "nm \<notin> set object_prototype_names"
  shows "processImport s r pkg vp = Inr None \<and> sync_entry pkg vp (k, JString s) st = Inr st"
proof -
  have none: "processImport s r pkg vp = Inr None"
    by (rule processImport_absent [OF assms(1) pkgVersion_of_absent [OF assms(2,3,4)]])
  from both_registries_None [OF assms(1) none] show ?thesis
    using none by (simp add: sync_entry_unchanged)
qed

text \<open>
  A name that no section declares and \<open>Object.prototype\<close> has: \<open>processImport\<close> throws, and
  so does the loop body.
\<close>

lemma inherited_name_throws:
  assumes "match_pattern Npm s = Some (nm, version, subpath)"
    and "\<forall>dev. devDependencies pkg = Some dev \<longrightarrow> dev nm = None"
    and "\<forall>deps. dependencies pkg = Some deps \<longrightarrow> deps nm = None"
    and "nm \<in> set object_prototype_names"
    and "devDependencies pkg \<noteq> None \<or> dependencies pkg \<noteq> None"
  shows "processImport s Npm pkg vp = Inl TypeError \<and> sync_entry pkg vp (k, JString s) st = Inl TypeError"
proof -
  have t: "processImport s Npm pkg vp = Inl TypeError"
    by (rule processImport_throws [OF assms(1) pkgVersion_of_inherited [OF assms(2,3,4,5)]])
  then show ?thesis by (simp add: sync_entry_def split: prod.splits)
qed

section \<open>The loop, entry by entry\<close>

lemma sync_entry_eq:
  "sync_entry pkg vp (k, v) (d, u, h) =
     (case entry_result pkg vp v of
        Inl e \<Rightarrow> Inl e
      | Inr found \<Rightarrow>
          (case found of
             None \<Rightarrow> Inr (d, u, h)
           | Some r \<Rightarrow> Inr (AList.update k (JString (newImport r)) d,
                   u @ [\<lparr>name = name r, oldVersion = oldVersion r, newVersion = newVersion r\<rparr>],
                   True)))"
  by (simp add: sync_entry_def entry_result_def split: jvalue.splits option.splits sum.splits)

lemma entry_result_error: "entry_result pkg vp v = Inl e \<Longrightarrow> e = TypeError"
  by (auto simp: entry_result_def split: jvalue.splits sum.splits option.splits
      dest: processImport_error)

lemma entry_result_Inr:
  "entry_result pkg vp v = Inr found \<Longrightarrow> entry_change pkg vp v = found"
  "entry_result pkg vp v = Inr found \<Longrightarrow> \<not> entry_throws pkg vp v"
  by (simp_all add: entry_change_def entry_throws_def)

lemma entry_result_Inl:
  "entry_result pkg vp v = Inl e \<Longrightarrow> entry_change pkg vp v = None"
  "entry_result pkg vp v = Inl e \<Longrightarrow> entry_throws pkg vp v"
  by (simp_all add: entry_change_def entry_throws_def)

lemma not_entry_throws:
  "\<not> entry_throws pkg vp v \<Longrightarrow> entry_result pkg vp v = Inr (entry_change pkg vp v)"
  by (cases "entry_result pkg vp v") (simp_all add: entry_change_def entry_throws_def)

lemma entry_updates_Nil [simp]: "entry_updates pkg vp [] = []"
  by (simp add: entry_updates_def map_filter_simps)

lemma entry_updates_Cons:
  "entry_updates pkg vp ((k, v) # es) =
     (case entry_update pkg vp v of None \<Rightarrow> [] | Some x \<Rightarrow> [x]) @ entry_updates pkg vp es"
  by (simp add: entry_updates_def map_filter_simps split: option.splits)

lemma entries_ok_Nil [simp]: "entries_ok pkg vp []"
  by (simp add: entries_ok_def)

lemma entries_ok_Cons [simp]:
  "entries_ok pkg vp ((k, v) # es) \<longleftrightarrow> \<not> entry_throws pkg vp v \<and> entries_ok pkg vp es"
  by (simp add: entries_ok_def)

lemma update_in_place:
  "k \<notin> fst ` set pre \<Longrightarrow> AList.update k x (pre @ (k, v) # es) = pre @ (k, x) # es"
  by (induction pre) auto

lemma sync_loop_flags:
  "sync_loop pkg vp es (d, u, h) = Inr (d', u', h')
   \<Longrightarrow> u' = u @ entry_updates pkg vp es \<and> h' = (h \<or> entry_updates pkg vp es \<noteq> [])"
proof (induction es arbitrary: d u h)
  case Nil
  then show ?case by simp
next
  case (Cons e es)
  obtain k v where e: "e = (k, v)" by (cases e)
  show ?case
  proof (cases "entry_result pkg vp v")
    case (Inl err)
    with Cons.prems show ?thesis by (simp add: e sync_entry_eq)
  next
    case (Inr found)
    show ?thesis
    proof (cases found)
      case None
      with Inr Cons.prems have "sync_loop pkg vp es (d, u, h) = Inr (d', u', h')"
        by (simp add: e sync_entry_eq)
      from Cons.IH [OF this] show ?thesis
        using entry_result_Inr(1) [OF Inr] None by (simp add: e entry_updates_Cons entry_update_def)
    next
      case (Some r)
      with Inr Cons.prems have "sync_loop pkg vp es (AList.update k (JString (newImport r)) d,
          u @ [\<lparr>name = name r, oldVersion = oldVersion r, newVersion = newVersion r\<rparr>], True)
          = Inr (d', u', h')"
        by (simp add: e sync_entry_eq)
      from Cons.IH [OF this] show ?thesis
        using entry_result_Inr(1) [OF Inr] Some by (simp add: e entry_updates_Cons entry_update_def)
    qed
  qed
qed

lemma sync_loop_doc:
  "distinct (map fst (pre @ es)) \<Longrightarrow> sync_loop pkg vp es (pre @ es, u, h) = Inr (d', u', h')
   \<Longrightarrow> d' = pre @ entry_values pkg vp es"
proof (induction es arbitrary: pre u h)
  case Nil
  then show ?case by (simp add: entry_values_def)
next
  case (Cons e es)
  obtain k v where e: "e = (k, v)" by (cases e)
  from Cons.prems(1) have fresh: "k \<notin> fst ` set pre" by (auto simp: e)
  have d: "distinct (map fst ((pre @ [(k, entry_value pkg vp v)]) @ es))"
    using Cons.prems(1) by (simp add: e)
  show ?case
  proof (cases "entry_result pkg vp v")
    case (Inl err)
    with Cons.prems(2) show ?thesis by (simp add: e sync_entry_eq)
  next
    case (Inr found)
    with entry_result_Inr(1) [OF Inr]
    obtain u1 h1 where step: "sync_entry pkg vp (k, v) (pre @ (k, v) # es, u, h)
        = Inr ((pre @ [(k, entry_value pkg vp v)]) @ es, u1, h1)"
      by (cases found) (simp_all add: sync_entry_eq entry_value_def update_in_place [OF fresh])
    with Cons.prems(2)
    have "sync_loop pkg vp es ((pre @ [(k, entry_value pkg vp v)]) @ es, u1, h1) = Inr (d', u', h')"
      by (simp add: e)
    from Cons.IH [OF d this] show ?thesis by (simp add: e entry_values_def)
  qed
qed

lemma sync_loop_ok: "entries_ok pkg vp es \<Longrightarrow> \<exists>st'. sync_loop pkg vp es st = Inr st'"
proof (induction es arbitrary: st)
  case Nil
  show ?case by (rule exI [of _ st]) simp
next
  case (Cons e es)
  obtain k v where e: "e = (k, v)" by (cases e)
  obtain d u h where st: "st = (d, u, h)" by (cases st)
  from Cons.prems have rest: "entries_ok pkg vp es" and "\<not> entry_throws pkg vp v"
    by (simp_all add: e)
  then obtain found where v: "entry_result pkg vp v = Inr found"
    using not_entry_throws by blast
  then obtain st1 where "sync_entry pkg vp (k, v) (d, u, h) = Inr st1"
    by (cases found) (simp_all add: sync_entry_eq)
  with Cons.IH [OF rest, of st1] show ?case by (simp add: e st)
qed

lemma sync_loop_fail: "\<not> entries_ok pkg vp es \<Longrightarrow> sync_loop pkg vp es st = Inl TypeError"
proof (induction es arbitrary: st)
  case Nil
  then show ?case by simp
next
  case (Cons e es)
  obtain k v where e: "e = (k, v)" by (cases e)
  obtain d u h where st: "st = (d, u, h)" by (cases st)
  show ?case
  proof (cases "entry_result pkg vp v")
    case (Inl err)
    with entry_result_error [OF Inl] show ?thesis by (simp add: e st sync_entry_eq)
  next
    case (Inr found)
    with Cons.prems have rest: "\<not> entries_ok pkg vp es" by (simp add: e entry_result_Inr)
    from Inr obtain st1 where "sync_entry pkg vp (k, v) (d, u, h) = Inr st1"
      by (cases found) (simp_all add: sync_entry_eq)
    with Cons.IH [OF rest, of st1] show ?thesis by (simp add: e st)
  qed
qed

text \<open>The loop ends normally exactly when no entry throws, and then it is the entries' sum.\<close>

lemma sync_entries_ok_iff:
  "(\<exists>st. sync_entries pkg vp es = Inr st) \<longleftrightarrow> entries_ok pkg vp es"
proof
  assume "\<exists>st. sync_entries pkg vp es = Inr st"
  then obtain st where "sync_loop pkg vp es (es, [], False) = Inr st"
    by (auto simp: sync_entries_def)
  with sync_loop_fail [of pkg vp es "(es, [], False)"] show "entries_ok pkg vp es"
    by (cases "entries_ok pkg vp es") simp_all
next
  assume "entries_ok pkg vp es"
  from sync_loop_ok [OF this, of "(es, [], False)"] show "\<exists>st. sync_entries pkg vp es = Inr st"
    by (simp add: sync_entries_def)
qed

lemma sync_entries_fail: "\<not> entries_ok pkg vp es \<Longrightarrow> sync_entries pkg vp es = Inl TypeError"
  by (simp add: sync_entries_def sync_loop_fail)

lemma sync_entries_flags:
  "sync_entries pkg vp es = Inr (d, u, h)
   \<Longrightarrow> u = entry_updates pkg vp es \<and> h = (entry_updates pkg vp es \<noteq> [])"
  using sync_loop_flags [of pkg vp es es "[]" False d u h] by (simp add: sync_entries_def)

lemma sync_entries_doc:
  "distinct (map fst es) \<Longrightarrow> sync_entries pkg vp es = Inr (d, u, h) \<Longrightarrow> d = entry_values pkg vp es"
  using sync_loop_doc [of "[]" es pkg vp "[]" False d u h] by (simp add: sync_entries_def)

lemma sync_entries_ok:
  "entries_ok pkg vp es
   \<Longrightarrow> \<exists>d. sync_entries pkg vp es = Inr (d, entry_updates pkg vp es, entry_updates pkg vp es \<noteq> [])"
proof -
  assume "entries_ok pkg vp es"
  with sync_entries_ok_iff [of pkg vp es] obtain st where "sync_entries pkg vp es = Inr st"
    by blast
  then obtain d u h where se: "sync_entries pkg vp es = Inr (d, u, h)"
    by (cases st) simp
  from sync_entries_flags [OF se] se show ?thesis by blast
qed

lemma sync_entries_eq:
  assumes "distinct (map fst es)" and "entries_ok pkg vp es"
  shows "sync_entries pkg vp es
     = Inr (entry_values pkg vp es, entry_updates pkg vp es, entry_updates pkg vp es \<noteq> [])"
proof -
  from sync_entries_ok [OF assms(2)] obtain d where
    se: "sync_entries pkg vp es = Inr (d, entry_updates pkg vp es, entry_updates pkg vp es \<noteq> [])"
    by blast
  from sync_entries_doc [OF assms(1) se] se show ?thesis by simp
qed

lemma map_fst_entry_values [simp]: "map fst (entry_values pkg vp es) = map fst es"
  by (induction es) (auto simp: entry_values_def)





lemma pkgVersion_of_ignores_imports:
  "pkgVersion_of (pkg\<lparr>imports' := x\<rparr>) nm = pkgVersion_of pkg nm"
  by (simp add: pkgVersion_of_def split: sum.splits option.splits)

lemma processImport_ignores_imports:
  "processImport s r (pkg\<lparr>imports' := x\<rparr>) vp = processImport s r pkg vp"
  by (cases "match_pattern r s")
    (auto simp: processImport_def pkgVersion_of_ignores_imports)

lemma entry_result_ignores_imports:
  "entry_result (pkg\<lparr>imports' := x\<rparr>) vp v = entry_result pkg vp v"
  by (cases v) (simp_all add: entry_result_def processImport_ignores_imports
      split: sum.splits option.splits)

lemma entry_updates_ignores_imports:
  "entry_updates (pkg\<lparr>imports' := x\<rparr>) vp es = entry_updates pkg vp es"
  by (simp add: entry_updates_def entry_update_def entry_change_def entry_result_ignores_imports)

lemma entries_ok_ignores_imports:
  "entries_ok (pkg\<lparr>imports' := x\<rparr>) vp es = entries_ok pkg vp es"
  by (simp add: entries_ok_def entry_throws_def entry_result_ignores_imports)

text \<open>The run on two documents that are there and parse, when no entry throws.\<close>

lemma sync_run:
  assumes "files w (path_resolve (packageJsonPath options)) = Some (Json pkg)"
    and "files w (path_resolve (denoJsonPath options)) = Some (Json deno)"
    and "imports' deno = Some entries"
    and "vp = (case versionPrecision options of None \<Rightarrow> Auto | Some m \<Rightarrow> m)"
    and "quiet = (case silent options of None \<Rightarrow> False | Some b \<Rightarrow> b)"
    and "sync_entries pkg vp entries = Inr (d, u, h)"
  shows "syncDenoNpmDependencies path_resolve options w =
     (Inr \<lparr>hasUpdates = entry_updates pkg vp entries \<noteq> [], updates = entry_updates pkg vp entries\<rparr>,
      if entry_updates pkg vp entries \<noteq> [] then
        w\<lparr>files := (files w)(path_resolve (denoJsonPath options) \<mapsto>
              Json (deno\<lparr>imports' := Some d\<rparr>)),
          writes := writes w @ [path_resolve (denoJsonPath options)],
          console := console w @
            (if quiet then [] else Updated_banner # map Update_line (entry_updates pkg vp entries))\<rparr>
      else w\<lparr>console := console w @ (if quiet then [] else [In_sync_banner])\<rparr>)"
proof -
  from sync_entries_flags [OF assms(6)]
  have uh: "u = entry_updates pkg vp entries" "h = (entry_updates pkg vp entries \<noteq> [])"
    by simp_all
  show ?thesis
    using assms uh
    by (simp add: syncDenoNpmDependencies_def Let_def JSON_parse_def)
qed

text \<open>The same run when an entry throws: the exception is the result, the world is untouched.\<close>

lemma sync_run_fail:
  assumes "files w (path_resolve (packageJsonPath options)) = Some (Json pkg)"
    and "files w (path_resolve (denoJsonPath options)) = Some (Json deno)"
    and "imports' deno = Some entries"
    and "\<not> entries_ok pkg (case versionPrecision options of None \<Rightarrow> Auto | Some m \<Rightarrow> m) entries"
  shows "syncDenoNpmDependencies path_resolve options w = (Inl TypeError, w)"
  using assms(1,2,3) sync_entries_fail [OF assms(4)]
  by (simp add: syncDenoNpmDependencies_def Let_def JSON_parse_def)

text \<open>When one of the two documents is missing or does not parse, or has no import map.\<close>

lemma sync_early_failure:
  assumes "\<not> (\<exists>pkg deno entries. files w (path_resolve (packageJsonPath options)) = Some (Json pkg)
     \<and> files w (path_resolve (denoJsonPath options)) = Some (Json deno)
     \<and> imports' deno = Some entries)"
  shows "\<exists>e. syncDenoNpmDependencies path_resolve options w = (Inl e, w)"
proof (cases "files w (path_resolve (packageJsonPath options))")
  case None
  then show ?thesis by (simp add: syncDenoNpmDependencies_def Let_def)
next
  case pkgText: (Some pkgText)
  show ?thesis
  proof (cases "files w (path_resolve (denoJsonPath options))")
    case None
    with pkgText show ?thesis by (simp add: syncDenoNpmDependencies_def Let_def)
  next
    case denoText: (Some denoText)
    show ?thesis
    proof (cases pkgText)
      case Malformed
      with pkgText denoText show ?thesis
        by (simp add: syncDenoNpmDependencies_def Let_def JSON_parse_def)
    next
      case pkg: (Json pkg)
      show ?thesis
      proof (cases denoText)
        case Malformed
        with pkgText denoText pkg show ?thesis
          by (simp add: syncDenoNpmDependencies_def Let_def JSON_parse_def)
      next
        case deno: (Json deno)
        show ?thesis
        proof (cases "imports' deno")
          case None
          with pkgText denoText pkg deno show ?thesis
            by (simp add: syncDenoNpmDependencies_def Let_def JSON_parse_def)
        next
          case (Some entries)
          with pkgText denoText pkg deno assms show ?thesis by blast
        qed
      qed
    qed
  qed
qed

lemma sync_success_files:
  assumes "syncDenoNpmDependencies path_resolve options w = (Inr res, w')"
  shows "\<exists>pkg deno entries. files w (path_resolve (packageJsonPath options)) = Some (Json pkg)
     \<and> files w (path_resolve (denoJsonPath options)) = Some (Json deno)
     \<and> imports' deno = Some entries
     \<and> entries_ok pkg (case versionPrecision options of None \<Rightarrow> Auto | Some m \<Rightarrow> m) entries"
proof -
  have "\<exists>pkg deno entries. files w (path_resolve (packageJsonPath options)) = Some (Json pkg)
     \<and> files w (path_resolve (denoJsonPath options)) = Some (Json deno)
     \<and> imports' deno = Some entries"
  proof (rule ccontr)
    assume "\<not> ?thesis"
    from sync_early_failure [OF this] assms show False by simp
  qed
  then obtain pkg deno entries where
    f: "files w (path_resolve (packageJsonPath options)) = Some (Json pkg)"
      "files w (path_resolve (denoJsonPath options)) = Some (Json deno)"
      "imports' deno = Some entries"
    by blast
  have "entries_ok pkg (case versionPrecision options of None \<Rightarrow> Auto | Some m \<Rightarrow> m) entries"
  proof (rule ccontr)
    assume "\<not> entries_ok pkg (case versionPrecision options of None \<Rightarrow> Auto | Some m \<Rightarrow> m) entries"
    from sync_run_fail [OF f this] assms show False by simp
  qed
  with f show ?thesis by blast
qed

lemma sync_failure_world:
  assumes "fst (syncDenoNpmDependencies path_resolve options w) = Inl e"
  shows "snd (syncDenoNpmDependencies path_resolve options w) = w"
proof (cases "\<exists>pkg deno entries. files w (path_resolve (packageJsonPath options)) = Some (Json pkg)
     \<and> files w (path_resolve (denoJsonPath options)) = Some (Json deno)
     \<and> imports' deno = Some entries")
  case False
  from sync_early_failure [OF this] show ?thesis by auto
next
  case True
  then obtain pkg deno entries where
    f: "files w (path_resolve (packageJsonPath options)) = Some (Json pkg)"
      "files w (path_resolve (denoJsonPath options)) = Some (Json deno)"
      "imports' deno = Some entries"
    by blast
  show ?thesis
  proof (cases "entries_ok pkg (case versionPrecision options of None \<Rightarrow> Auto | Some m \<Rightarrow> m) entries")
    case False
    from sync_run_fail [OF f this] show ?thesis by simp
  next
    case True
    from sync_entries_ok [OF this] obtain d where "sync_entries pkg
        (case versionPrecision options of None \<Rightarrow> Auto | Some m \<Rightarrow> m) entries
      = Inr (d, entry_updates pkg (case versionPrecision options of None \<Rightarrow> Auto | Some m \<Rightarrow> m) entries,
             entry_updates pkg (case versionPrecision options of None \<Rightarrow> Auto | Some m \<Rightarrow> m) entries \<noteq> [])"
      by blast
    from sync_run [OF f refl refl this] assms show ?thesis by simp
  qed
qed




section \<open>Definitions unfolded when a concrete run is evaluated\<close>

lemmas match_defs = match_pattern_def match_npm_def match_jsr_def startsWith_def
  scan_version_subpath_def scan_version_def scan_subpath_def is_digit_def is_line_terminator_def

lemmas process_defs = processImport_def pkgVersion_of_def section_version_def get_property_def
  object_prototype_names_def strip_leading_non_digits_def finalVersion_of_def formatVersion_def
  detectVersionPrecision_def MAJOR_MINOR_PRECISION_def registry_text_def Let_def

lemmas sync_defs = syncDenoNpmDependencies_def JSON_parse_def sync_entries_def sync_entry_def
  demo_world_def demo_options_def Let_def

lemmas resolver_defs = resolveVersion_def parseCatalogReference_def detectPackageManager_def
  resolvePnpmCatalog_def readPnpmWorkspaceYaml_def get_property_def object_prototype_names_def
  trim_def is_white_space_def startsWith_def demo_env_def

lemmas entry_defs = process_defs match_defs

section \<open>A second run\<close>

lemma take_min_length: "take (min (length xs) k) xs = take k xs"
  by (simp add: min_def)

lemma formatVersion_again:
  assumes "0 < k"
  shows "formatVersion p (length (split_dot (formatVersion p k))) = formatVersion p k"
proof -
  have "length (split_dot (formatVersion p k)) = min (length (split_dot p)) k"
    by (simp add: split_dot_formatVersion [OF assms])
  then show ?thesis by (simp add: formatVersion_def take_min_length)
qed

lemma finalVersion_of_again:
  "finalVersion_of vp (finalVersion_of vp v p) p = finalVersion_of vp v p"
proof (cases vp)
  case Auto
  have "0 < length (split_dot v)" by (cases "split_dot v") simp_all
  from formatVersion_again [OF this, of p] Auto show ?thesis
    by (simp add: finalVersion_of_def detectVersionPrecision_def)
qed (simp_all add: finalVersion_of_def)

lemma set_split_dot: "c \<in> set s \<Longrightarrow> c = CHR ''.'' \<or> (\<exists>x \<in> set (split_dot s). c \<in> set x)"
proof (induction s)
  case Nil
  then show ?case by simp
next
  case (Cons a s)
  obtain x xs where sp: "split_dot s = x # xs" by (cases "split_dot s") simp_all
  show ?case
  proof (cases "c = a")
    case True
    then show ?thesis by (auto simp: sp)
  next
    case False
    with Cons have "c = CHR ''.'' \<or> (\<exists>y \<in> set (split_dot s). c \<in> set y)" by simp
    then show ?thesis by (auto simp: sp)
  qed
qed

lemma numeric_version_no_slash: "numeric_version v \<Longrightarrow> CHR ''/'' \<notin> set v"
proof
  assume n: "numeric_version v" and "CHR ''/'' \<in> set v"
  from set_split_dot [OF this(2)] obtain x where "x \<in> set (split_dot v)" "CHR ''/'' \<in> set x"
    by auto
  with n have "is_digit CHR ''/''" by (auto simp: numeric_version_def list_all_iff)
  then show False by (simp add: is_digit_def)
qed

lemma takeWhile_up_to_slash:
  "CHR ''/'' \<notin> set xs \<Longrightarrow> takeWhile (\<lambda>c. c \<noteq> CHR ''/'') (xs @ CHR ''/'' # t) = xs"
  by (induction xs) auto

lemma takeWhile_no_slash:
  "CHR ''/'' \<notin> set xs \<Longrightarrow> takeWhile (\<lambda>c. c \<noteq> CHR ''/'') xs = xs"
  by (induction xs) auto

lemma same_head_of_slash:
  assumes "xs @ a = ys @ b" and "CHR ''/'' \<notin> set xs" and "CHR ''/'' \<notin> set ys"
    and "a = [] \<or> (\<exists>t. a = CHR ''/'' # t)" and "b = [] \<or> (\<exists>t. b = CHR ''/'' # t)"
  shows "xs = ys"
proof -
  have "takeWhile (\<lambda>c. c \<noteq> CHR ''/'') (xs @ a) = xs"
    using assms(2,4) by (auto simp: takeWhile_up_to_slash takeWhile_no_slash)
  moreover have "takeWhile (\<lambda>c. c \<noteq> CHR ''/'') (ys @ b) = ys"
    using assms(3,5) by (auto simp: takeWhile_up_to_slash takeWhile_no_slash)
  ultimately show ?thesis using assms(1) by simp
qed

lemma processImport_SomeD:
  assumes "processImport s r pkg vp = Inr (Some res)"
  shows "\<exists>nm v sp p. match_pattern r s = Some (nm, v, sp) \<and> pkgVersion_of pkg nm = Inr (Some p)
     \<and> res = \<lparr>name = nm, oldVersion = v, newVersion = finalVersion_of vp v p,
               newImport = registry_text r @ '':'' @ nm @ ''@'' @ finalVersion_of vp v p
                 @ (case sp of None \<Rightarrow> [] | Some q \<Rightarrow> q)\<rparr>"
proof (cases "match_pattern r s")
  case None
  with assms show ?thesis by (simp add: processImport_def)
next
  case (Some g)
  obtain nm v sp where g: "g = (nm, v, sp)" by (cases g)
  from assms Some g obtain found where f: "pkgVersion_of pkg nm = Inr found"
    by (cases "pkgVersion_of pkg nm") (simp_all add: processImport_def)
  show ?thesis
  proof (cases found)
    case None
    with assms Some g f show ?thesis by (simp add: processImport_def)
  next
    case (Some p)
    with f have p: "pkgVersion_of pkg nm = Inr (Some p)" by simp
    note m = \<open>match_pattern r s = Some g\<close>
    from assms processImport_matched [OF m [unfolded g] p, of vp]
    have "res = \<lparr>name = nm, oldVersion = v, newVersion = finalVersion_of vp v p,
               newImport = registry_text r @ '':'' @ nm @ ''@'' @ finalVersion_of vp v p
                 @ (case sp of None \<Rightarrow> [] | Some q \<Rightarrow> q)\<rparr>"
      by (simp split: if_splits)
    with m g p show ?thesis by blast
  qed
qed

lemma subpath_text_shape:
  assumes "match_pattern r s = Some (nm, v, sp)"
  shows "(case sp of None \<Rightarrow> [] | Some q \<Rightarrow> q) = [] \<or> (\<exists>t. (case sp of None \<Rightarrow> [] | Some q \<Rightarrow> q) = CHR ''/'' # t)"
proof -
  from match_pattern_sound [OF assms]
  have ok: "name_ok r nm"
    and s: "s = registry_text r @ '':'' @ nm @ ''@'' @ (v @ (case sp of None \<Rightarrow> [] | Some q \<Rightarrow> q))"
    by simp_all
  from assms match_pattern_rebuilt [OF ok, of "v @ (case sp of None \<Rightarrow> [] | Some q \<Rightarrow> q)"] s
  have "scan_version_subpath nm (v @ (case sp of None \<Rightarrow> [] | Some q \<Rightarrow> q)) = Some (nm, v, sp)"
    by simp
  from scan_version_subpath_sound [OF this]
  obtain rr where "scan_version (v @ (case sp of None \<Rightarrow> [] | Some q \<Rightarrow> q)) = Some (v, rr)"
    and ss: "scan_subpath rr = Some sp"
    by blast
  from scan_subpath_sound [OF ss] show ?thesis by auto
qed

lemma processImport_again:
  assumes first: "processImport s r pkg vp = Inr (Some res)"
    and noslash: "CHR ''/'' \<notin> set (newVersion res)"
  shows "processImport (newImport res) r' pkg vp = Inr None"
proof -
  from processImport_SomeD [OF first] obtain nm v sp p where
    m: "match_pattern r s = Some (nm, v, sp)" and p: "pkgVersion_of pkg nm = Inr (Some p)"
    and res: "res = \<lparr>name = nm, oldVersion = v, newVersion = finalVersion_of vp v p,
               newImport = registry_text r @ '':'' @ nm @ ''@'' @ finalVersion_of vp v p
                 @ (case sp of None \<Rightarrow> [] | Some q \<Rightarrow> q)\<rparr>"
    by blast
  define f where "f = finalVersion_of vp v p"
  define tail where "tail = (case sp of None \<Rightarrow> [] | Some q \<Rightarrow> q)"
  have new: "newImport res = registry_text r @ '':'' @ nm @ ''@'' @ (f @ tail)"
    by (simp add: res f_def tail_def)
  have fns: "CHR ''/'' \<notin> set f" using noslash by (simp add: res f_def)
  have tail: "tail = [] \<or> (\<exists>t. tail = CHR ''/'' # t)"
    using subpath_text_shape [OF m] by (simp add: tail_def)
  from match_pattern_sound [OF m] have ok: "name_ok r nm" by simp
  show ?thesis
  proof (cases "r' = r")
    case False
    then have "match_pattern r' (newImport res) = None"
      unfolding new by (rule match_pattern_other_prefix)
    then show ?thesis by (rule processImport_no_match)
  next
    case True
    have again: "match_pattern r (newImport res) = scan_version_subpath nm (f @ tail)"
      unfolding new by (rule match_pattern_rebuilt [OF ok])
    show ?thesis
    proof (cases "scan_version_subpath nm (f @ tail)")
      case None
      with again True show ?thesis by (simp add: processImport_no_match)
    next
      case (Some g)
      obtain nm' v' sp' where g: "g = (nm', v', sp')" by (cases g)
      from scan_version_subpath_sound [OF Some [unfolded g]]
      have nm': "nm' = nm" and nv: "numeric_version v'"
        and eq: "f @ tail = v' @ (case sp' of None \<Rightarrow> [] | Some q \<Rightarrow> q)"
        and "\<exists>rr. scan_version (f @ tail) = Some (v', rr) \<and> scan_subpath rr = Some sp'"
        by blast+
      then obtain rr where ss: "scan_subpath rr = Some sp'" by blast
      from scan_subpath_sound [OF ss]
      have tail': "(case sp' of None \<Rightarrow> [] | Some q \<Rightarrow> q) = [] \<or> (\<exists>t. (case sp' of None \<Rightarrow> [] | Some q \<Rightarrow> q) = CHR ''/'' # t)"
        by auto
      have v': "v' = f"
        using same_head_of_slash [OF eq fns numeric_version_no_slash [OF nv] tail tail'] by simp
      have m2: "match_pattern r (newImport res) = Some (nm, f, sp')"
        using again Some g nm' v' by simp
      have "finalVersion_of vp f p = f" by (simp add: f_def finalVersion_of_again)
      then show ?thesis
        using True processImport_matched [OF m2 p, of vp] by simp
    qed
  qed
qed

lemma entry_result_again:
  assumes "entry_result pkg vp v = Inr (Some res)" and "CHR ''/'' \<notin> set (newVersion res)"
  shows "entry_result pkg vp (JString (newImport res)) = Inr None"
proof -
  from assms(1) obtain s r where "processImport s r pkg vp = Inr (Some res)"
    by (auto simp: entry_result_def split: jvalue.splits sum.splits option.splits)
  from processImport_again [OF this assms(2)] show ?thesis
    by (simp add: entry_result_def)
qed

lemma entry_update_newVersion:
  "entry_change pkg vp v = Some res \<Longrightarrow> \<exists>u. entry_update pkg vp v = Some u \<and> newVersion u = newVersion res"
  by (simp add: entry_update_def)

lemma entry_updates_mem:
  "(k, v) \<in> set es \<Longrightarrow> entry_update pkg vp v = Some u \<Longrightarrow> u \<in> set (entry_updates pkg vp es)"
  by (induction es) (auto simp: entry_updates_Cons split: option.splits)

lemma entry_updates_Nil_iff:
  "entry_updates pkg vp es = [] \<longleftrightarrow> (\<forall>(k, v) \<in> set es. entry_change pkg vp v = None)"
  by (induction es) (auto simp: entry_updates_Cons entry_update_def split: option.splits)

lemma entries_ok_iff:
  "entries_ok pkg vp es \<longleftrightarrow> (\<forall>(k, v) \<in> set es. \<not> entry_throws pkg vp v)"
  by (simp add: entries_ok_def list_all_iff)

text \<open>
  After a run that ended normally and put no slash into a version, no entry gives a result
  any more, and none throws.
\<close>

lemma entry_updates_again:
  assumes "\<forall>u \<in> set (entry_updates pkg vp es). CHR ''/'' \<notin> set (newVersion u)"
    and "entries_ok pkg vp es"
  shows "entry_updates pkg vp (entry_values pkg vp es) = []
     \<and> entries_ok pkg vp (entry_values pkg vp es)"
proof -
  have "entry_result pkg vp (entry_value pkg vp v) = Inr None" if mem: "(k, v) \<in> set es" for k v
  proof -
    from assms(2) mem have "\<not> entry_throws pkg vp v" by (auto simp: entries_ok_iff)
    then have r: "entry_result pkg vp v = Inr (entry_change pkg vp v)" by (rule not_entry_throws)
    show ?thesis
    proof (cases "entry_change pkg vp v")
      case None
      with r show ?thesis by (simp add: entry_value_def)
    next
      case (Some res)
      from entry_update_newVersion [OF Some] obtain u where
        u: "entry_update pkg vp v = Some u" and nv: "newVersion u = newVersion res"
        by blast
      from entry_updates_mem [OF mem u] assms(1) nv have "CHR ''/'' \<notin> set (newVersion res)"
        by auto
      from entry_result_again [OF r [unfolded Some] this] Some show ?thesis
        by (simp add: entry_value_def)
    qed
  qed
  then have "entry_change pkg vp (entry_value pkg vp v) = None \<and> \<not> entry_throws pkg vp (entry_value pkg vp v)"
    if "(k, v) \<in> set es" for k v
    using that by (simp add: entry_result_Inr)
  then show ?thesis
    by (auto simp: entry_updates_Nil_iff entries_ok_iff entry_values_def)
qed

section \<open>The example of the README\<close>

text \<open>
  The run the README shows under \<open>How It Works\<close>: four entries, two of them with subpaths,
  one declared under \<open>devDependencies\<close>. The model gives the import map the README gives.
\<close>

lemma readme_example:
  "sync_entries
     \<lparr>imports' = None,
      dependencies = Some [''lodash'' \<mapsto> ''^4.17.21'', ''@std/assert'' \<mapsto> ''^1.0.0'',
                           ''@std/path'' \<mapsto> ''^0.225.0''],
      devDependencies = Some [''typescript'' \<mapsto> ''^5.0.0'']\<rparr>
     Auto
     [(''lodash'', JString ''npm:lodash@4.17.0''),
      (''typescript'', JString ''npm:typescript@4.9.0/lib/typescript.d.ts''),
      (''@std/assert'', JString ''jsr:@std/assert@0.226.0''),
      (''@std/path'', JString ''jsr:@std/path@0.224.0/posix'')]
   = Inr ([(''lodash'', JString ''npm:lodash@4.17.21''),
       (''typescript'', JString ''npm:typescript@5.0.0/lib/typescript.d.ts''),
       (''@std/assert'', JString ''jsr:@std/assert@1.0.0''),
       (''@std/path'', JString ''jsr:@std/path@0.225.0/posix'')],
      [\<lparr>name = ''lodash'', oldVersion = ''4.17.0'', newVersion = ''4.17.21''\<rparr>,
       \<lparr>name = ''typescript'', oldVersion = ''4.9.0'', newVersion = ''5.0.0''\<rparr>,
       \<lparr>name = ''@std/assert'', oldVersion = ''0.226.0'', newVersion = ''1.0.0''\<rparr>,
       \<lparr>name = ''@std/path'', oldVersion = ''0.224.0'', newVersion = ''0.225.0''\<rparr>],
      True)"
proof -
  let ?pkg = "\<lparr>imports' = None,
      dependencies = Some [''lodash'' \<mapsto> ''^4.17.21'', ''@std/assert'' \<mapsto> ''^1.0.0'',
                           ''@std/path'' \<mapsto> ''^0.225.0''],
      devDependencies = Some [''typescript'' \<mapsto> ''^5.0.0'']\<rparr>"
  have p1: "processImport ''npm:lodash@4.17.0'' Npm ?pkg Auto
      = Inr (Some \<lparr>name = ''lodash'', oldVersion = ''4.17.0'', newVersion = ''4.17.21'',
              newImport = ''npm:lodash@4.17.21''\<rparr>)"
    by (simp add: entry_defs)
  have p2: "processImport ''npm:typescript@4.9.0/lib/typescript.d.ts'' Npm ?pkg Auto
      = Inr (Some \<lparr>name = ''typescript'', oldVersion = ''4.9.0'', newVersion = ''5.0.0'',
              newImport = ''npm:typescript@5.0.0/lib/typescript.d.ts''\<rparr>)"
    by (simp add: entry_defs)
  have p3: "processImport ''jsr:@std/assert@0.226.0'' Npm ?pkg Auto = Inr None"
    "processImport ''jsr:@std/path@0.224.0/posix'' Npm ?pkg Auto = Inr None"
    by (simp_all add: entry_defs)
  have p4: "processImport ''jsr:@std/assert@0.226.0'' Jsr ?pkg Auto
      = Inr (Some \<lparr>name = ''@std/assert'', oldVersion = ''0.226.0'', newVersion = ''1.0.0'',
              newImport = ''jsr:@std/assert@1.0.0''\<rparr>)"
    by (simp add: entry_defs)
  have p5: "processImport ''jsr:@std/path@0.224.0/posix'' Jsr ?pkg Auto
      = Inr (Some \<lparr>name = ''@std/path'', oldVersion = ''0.224.0'', newVersion = ''0.225.0'',
              newImport = ''jsr:@std/path@0.225.0/posix''\<rparr>)"
    by (simp add: entry_defs)
  show ?thesis
    by (simp add: sync_entries_def sync_entry_def p1 p2 p3 p4 p5)
qed


section \<open>The resolver on names that \<open>Object.prototype\<close> has\<close>

text \<open>
  In the workspace of \<open>demo_env\<close> no catalog is named \<open>constructor\<close> and the default catalog
  has no package \<open>constructor\<close>. The reference \<open>catalog:constructor\<close> for the package \<open>name\<close>
  resolves to \<open>Object\<close>, the name of the function \<open>Object.prototype.constructor\<close>, and the
  reference \<open>catalog:\<close> for the package \<open>constructor\<close> resolves to that function; for names
  that \<open>Object.prototype\<close> does not have, both give \<open>null\<close>.
\<close>

lemma resolver_reads_inherited:
  "resolveVersion (demo_env (Some ''pnpm'')) ''catalog:constructor'' ''name'' ''/w''
     = Inr (Some (Text ''Object''))
   \<and> resolveVersion (demo_env (Some ''pnpm'')) ''catalog:'' ''constructor'' ''/w''
     = Inr (Some (Builtin [''constructor'']))
   \<and> resolveVersion (demo_env (Some ''pnpm'')) ''catalog:prod'' ''name'' ''/w'' = Inr None
   \<and> resolveVersion (demo_env (Some ''pnpm'')) ''catalog:'' ''lodash'' ''/w'' = Inr None"
  by (simp add: resolver_defs)

section \<open>The claims\<close>

subsection \<open>C1\<close>

text \<open>
  Claim C1 on the code. The resolver alone resolves \<open>catalog:\<close> for \<open>zod\<close> to \<open>^3.22.0\<close> when
  pnpm is detected. \<open>syncDenoNpmDependencies\<close> never calls it: it strips the non-digits of
  \<open>catalog:\<close>, which leaves the empty string, records the change \<open>3.21.0\<close> to the empty
  version and writes \<open>npm:zod@\<close>.
\<close>

theorem C1_scenario_on_the_code:
  "resolveVersion (demo_env (Some ''pnpm'')) ''catalog:'' ''zod'' ''/w'' = Inr (Some (Text ''^3.22.0''))
   \<and> syncDenoNpmDependencies (\<lambda>p. p) (demo_options None)
        (demo_world [''zod'' \<mapsto> ''catalog:''] [(''zod'', JString ''npm:zod@3.21.0'')])
     = (Inr \<lparr>hasUpdates = True,
             updates = [\<lparr>name = ''zod'', oldVersion = ''3.21.0'', newVersion = []\<rparr>]\<rparr>,
        (demo_world [''zod'' \<mapsto> ''catalog:''] [(''zod'', JString ''npm:zod@'')])
          \<lparr>writes := [''/w/deno.json''],
           console := [Updated_banner,
             Update_line \<lparr>name = ''zod'', oldVersion = ''3.21.0'', newVersion = []\<rparr>]\<rparr>)"
proof -
  let ?pkg = "\<lparr>imports' = None, dependencies = Some [''zod'' \<mapsto> ''catalog:''], devDependencies = None\<rparr>"
  have r: "resolveVersion (demo_env (Some ''pnpm'')) ''catalog:'' ''zod'' ''/w'' = Inr (Some (Text ''^3.22.0''))"
    by (simp add: resolver_defs)
  have p: "processImport ''npm:zod@3.21.0'' Npm ?pkg Auto
      = Inr (Some \<lparr>name = ''zod'', oldVersion = ''3.21.0'', newVersion = [], newImport = ''npm:zod@''\<rparr>)"
    by (simp add: entry_defs)
  show ?thesis
    by (simp add: r) (simp add: sync_defs p)
qed

subsection \<open>C2\<close>

text \<open>
  Claim C2 on the code. The resolver alone returns nothing for a catalog reference when the
  detected manager is npm, and when pnpm is detected but the named catalog is missing.
  \<open>syncDenoNpmDependencies\<close> goes on to the next entry, but it does not leave the entry
  with the unresolvable reference unchanged: it records a change to the empty version and
  writes \<open>npm:zod@\<close>.
\<close>

theorem C2_unresolvable_reference_on_the_code:
  "resolveVersion (demo_env (Some ''npm'')) ''catalog:'' ''zod'' ''/w'' = Inr None
   \<and> resolveVersion (demo_env (Some ''pnpm'')) ''catalog:missing'' ''zod'' ''/w'' = Inr None
   \<and> syncDenoNpmDependencies (\<lambda>p. p) (demo_options None)
        (demo_world [''zod'' \<mapsto> ''catalog:missing'', ''lodash'' \<mapsto> ''^4.17.21'']
          [(''zod'', JString ''npm:zod@3.21.0''), (''lodash'', JString ''npm:lodash@4.17.0'')])
     = (Inr \<lparr>hasUpdates = True,
             updates = [\<lparr>name = ''zod'', oldVersion = ''3.21.0'', newVersion = []\<rparr>,
                        \<lparr>name = ''lodash'', oldVersion = ''4.17.0'', newVersion = ''4.17.21''\<rparr>]\<rparr>,
        (demo_world [''zod'' \<mapsto> ''catalog:missing'', ''lodash'' \<mapsto> ''^4.17.21'']
          [(''zod'', JString ''npm:zod@''), (''lodash'', JString ''npm:lodash@4.17.21'')])
          \<lparr>writes := [''/w/deno.json''],
           console := [Updated_banner,
             Update_line \<lparr>name = ''zod'', oldVersion = ''3.21.0'', newVersion = []\<rparr>,
             Update_line \<lparr>name = ''lodash'', oldVersion = ''4.17.0'', newVersion = ''4.17.21''\<rparr>]\<rparr>)"
proof -
  let ?pkg = "\<lparr>imports' = None,
      dependencies = Some [''zod'' \<mapsto> ''catalog:missing'', ''lodash'' \<mapsto> ''^4.17.21''],
      devDependencies = None\<rparr>"
  have r1: "resolveVersion (demo_env (Some ''npm'')) ''catalog:'' ''zod'' ''/w'' = Inr None"
    by (simp add: resolver_defs)
  have r2: "resolveVersion (demo_env (Some ''pnpm'')) ''catalog:missing'' ''zod'' ''/w'' = Inr None"
    by (simp add: resolver_defs)
  have p1: "processImport ''npm:zod@3.21.0'' Npm ?pkg Auto
      = Inr (Some \<lparr>name = ''zod'', oldVersion = ''3.21.0'', newVersion = [], newImport = ''npm:zod@''\<rparr>)"
    by (simp add: entry_defs)
  have p2: "processImport ''npm:lodash@4.17.0'' Npm ?pkg Auto
      = Inr (Some \<lparr>name = ''lodash'', oldVersion = ''4.17.0'', newVersion = ''4.17.21'',
              newImport = ''npm:lodash@4.17.21''\<rparr>)"
    by (simp add: entry_defs)
  show ?thesis
    by (simp add: r1 r2) (simp add: sync_defs p1 p2)
qed

subsection \<open>C3\<close>




subsection \<open>C4\<close>

text \<open>
  Claim C4. For a matched entry with a candidate version, \<open>processImport\<close> computes the final
  version by precision mode: \<open>major\<close> keeps the text before the first dot; \<open>minor\<close> keeps the
  first two dot-separated segments, and the whole candidate when it has at most two; \<open>full\<close>
  keeps the candidate; \<open>auto\<close> keeps as many segments as the embedded version has. When the
  final version equals the embedded version, the loop body leaves the entry, the change list
  and the flag as they were.
\<close>

theorem C4_final_version:
  assumes "match_pattern r s = Some (nm, version, subpath)"
    and "pkgVersion_of pkg nm = Inr (Some candidate)"
  shows "processImport s r pkg vp =
           (if candidate = version \<or> finalVersion_of vp version candidate = version then Inr None
            else Inr (Some \<lparr>name = nm, oldVersion = version,
                       newVersion = finalVersion_of vp version candidate,
                       newImport = registry_text r @ '':'' @ nm @ ''@''
                         @ finalVersion_of vp version candidate
                         @ (case subpath of None \<Rightarrow> [] | Some p \<Rightarrow> p)\<rparr>))
       \<and> finalVersion_of Major version candidate = takeWhile (\<lambda>c. c \<noteq> CHR ''.'') candidate
       \<and> split_dot (finalVersion_of Minor version candidate) = take 2 (split_dot candidate)
       \<and> (length (split_dot candidate) \<le> 2 \<longrightarrow> finalVersion_of Minor version candidate = candidate)
       \<and> finalVersion_of Full version candidate = candidate
       \<and> split_dot (finalVersion_of Auto version candidate)
           = take (length (split_dot version)) (split_dot candidate)
       \<and> (finalVersion_of vp version candidate = version
            \<longrightarrow> sync_entry pkg vp (k, JString s) st = Inr st)"
proof -
  have major: "finalVersion_of Major version candidate = takeWhile (\<lambda>c. c \<noteq> CHR ''.'') candidate"
    using hd_split_dot [of candidate]
    by (cases "split_dot candidate") (auto simp: finalVersion_of_def)
  have minor: "split_dot (finalVersion_of Minor version candidate) = take 2 (split_dot candidate)"
    by (simp add: finalVersion_of_def MAJOR_MINOR_PRECISION_def split_dot_formatVersion)
  have minor_all: "length (split_dot candidate) \<le> 2 \<longrightarrow> finalVersion_of Minor version candidate = candidate"
    by (simp add: finalVersion_of_def MAJOR_MINOR_PRECISION_def formatVersion_all)
  have full: "finalVersion_of Full version candidate = candidate"
    by (simp add: finalVersion_of_def)
  have "0 < length (split_dot version)" by simp
  then have auto_mode: "split_dot (finalVersion_of Auto version candidate)
      = take (length (split_dot version)) (split_dot candidate)"
    by (simp add: finalVersion_of_def detectVersionPrecision_def split_dot_formatVersion del: length_greater_0_conv)
  have same: "sync_entry pkg vp (k, JString s) st = Inr st"
    if eq: "finalVersion_of vp version candidate = version"
  proof -
    have here: "processImport s r pkg vp = Inr None"
      using processImport_matched [OF assms, of vp] eq by simp
    have other: "processImport s r' pkg vp = Inr None" if "r' \<noteq> r" for r'
      using match_pattern_exclusive [OF assms(1) that] by (rule processImport_no_match)
    have "processImport s Npm pkg vp = Inr None" using here other [of Npm] by (cases "Npm = r") auto
    moreover have "processImport s Jsr pkg vp = Inr None" using here other [of Jsr] by (cases "Jsr = r") auto
    ultimately show ?thesis by (rule sync_entry_unchanged)
  qed
  show ?thesis
    using processImport_matched [OF assms, of vp] major minor minor_all full auto_mode same
    by blast
qed

theorem C4_final_version_witness:
  "match_pattern Npm ''npm:zod@3'' = Some (''zod'', ''3'', None)
   \<and> pkgVersion_of \<lparr>imports' = None, dependencies = Some [''zod'' \<mapsto> ''^3.22.4''], devDependencies = None\<rparr> ''zod''
       = Inr (Some ''3.22.4'')
   \<and> finalVersion_of Auto ''3'' ''3.22.4'' = ''3''
   \<and> processImport ''npm:zod@3'' Npm
        \<lparr>imports' = None, dependencies = Some [''zod'' \<mapsto> ''^3.22.4''], devDependencies = None\<rparr> Auto = Inr None
   \<and> sync_entry \<lparr>imports' = None, dependencies = Some [''zod'' \<mapsto> ''^3.22.4''], devDependencies = None\<rparr> Auto
        (''zod'', JString ''npm:zod@3'') ([(''zod'', JString ''npm:zod@3'')], [], False)
       = Inr ([(''zod'', JString ''npm:zod@3'')], [], False)"
proof -
  let ?pkg = "\<lparr>imports' = None, dependencies = Some [''zod'' \<mapsto> ''^3.22.4''], devDependencies = None\<rparr>"
  have m: "match_pattern Npm ''npm:zod@3'' = Some (''zod'', ''3'', None)"
    by (simp add: match_pattern_def match_npm_def startsWith_def scan_version_subpath_def
        scan_version_def scan_subpath_def is_digit_def)
  have p: "pkgVersion_of ?pkg ''zod'' = Inr (Some ''3.22.4'')"
    by (simp add: pkgVersion_of_def section_version_def get_property_def
        strip_leading_non_digits_def is_digit_def)
  have f: "finalVersion_of Auto ''3'' ''3.22.4'' = ''3''"
    by (simp add: finalVersion_of_def formatVersion_def detectVersionPrecision_def)
  show ?thesis
    using C4_final_version [OF m p, of Auto "''zod''" "([(''zod'', JString ''npm:zod@3'')], [], False)"] m p f
    by simp
qed

subsection \<open>C5\<close>

text \<open>
  Claim C5 as stated holds for any pair of documents. A manifest range that leaves a slash
  in the candidate breaks it: with the tarball range \<open>https://example.com/v2/foo.tgz\<close> the
  candidate is \<open>2/foo.tgz\<close>; the first run turns \<open>npm:foo@1\<close> into \<open>npm:foo@2/foo\<close>, which the
  second run reads as version \<open>2\<close> with subpath \<open>/foo\<close> and turns into \<open>npm:foo@2/foo/foo\<close>:
  the second run reports a change and writes the import map again.
\<close>

theorem C5_slash_counterexample:
  "syncDenoNpmDependencies (\<lambda>p. p) (demo_options None)
      (demo_world [''foo'' \<mapsto> ''https://example.com/v2/foo.tgz''] [(''foo'', JString ''npm:foo@1'')])
     = (Inr \<lparr>hasUpdates = True,
             updates = [\<lparr>name = ''foo'', oldVersion = ''1'', newVersion = ''2/foo''\<rparr>]\<rparr>,
        (demo_world [''foo'' \<mapsto> ''https://example.com/v2/foo.tgz''] [(''foo'', JString ''npm:foo@2/foo'')])
          \<lparr>writes := [''/w/deno.json''],
           console := [Updated_banner,
             Update_line \<lparr>name = ''foo'', oldVersion = ''1'', newVersion = ''2/foo''\<rparr>]\<rparr>)
   \<and> syncDenoNpmDependencies (\<lambda>p. p) (demo_options None)
        ((demo_world [''foo'' \<mapsto> ''https://example.com/v2/foo.tgz''] [(''foo'', JString ''npm:foo@2/foo'')])
          \<lparr>writes := [''/w/deno.json''],
           console := [Updated_banner,
             Update_line \<lparr>name = ''foo'', oldVersion = ''1'', newVersion = ''2/foo''\<rparr>]\<rparr>)
     = (Inr \<lparr>hasUpdates = True,
             updates = [\<lparr>name = ''foo'', oldVersion = ''2'', newVersion = ''2/foo''\<rparr>]\<rparr>,
        (demo_world [''foo'' \<mapsto> ''https://example.com/v2/foo.tgz''] [(''foo'', JString ''npm:foo@2/foo/foo'')])
          \<lparr>writes := [''/w/deno.json'', ''/w/deno.json''],
           console := [Updated_banner,
             Update_line \<lparr>name = ''foo'', oldVersion = ''1'', newVersion = ''2/foo''\<rparr>,
             Updated_banner,
             Update_line \<lparr>name = ''foo'', oldVersion = ''2'', newVersion = ''2/foo''\<rparr>]\<rparr>)"
proof -
  let ?pkg = "\<lparr>imports' = None, dependencies = Some [''foo'' \<mapsto> ''https://example.com/v2/foo.tgz''],
      devDependencies = None\<rparr>"
  have p1: "processImport ''npm:foo@1'' Npm ?pkg Auto
      = Inr (Some \<lparr>name = ''foo'', oldVersion = ''1'', newVersion = ''2/foo'', newImport = ''npm:foo@2/foo''\<rparr>)"
    by (simp add: entry_defs)
  have p2: "processImport ''npm:foo@2/foo'' Npm ?pkg Auto
      = Inr (Some \<lparr>name = ''foo'', oldVersion = ''2'', newVersion = ''2/foo'', newImport = ''npm:foo@2/foo/foo''\<rparr>)"
    by (simp add: entry_defs)
  show ?thesis
    by (simp add: sync_defs p1 p2)
qed

text \<open>
  Claim C5, amended. When the first run succeeds and no new version in its change list
  contains a slash (the keys of the import map being distinct, as the keys of an object
  are), the second run on the world the first one left returns \<open>hasUpdates = false\<close> and an
  empty change list, and writes nothing: the files are those the first run left.
\<close>

theorem C5_second_run_is_quiet:
  assumes "syncDenoNpmDependencies path_resolve options w = (Inr r1, w1)"
    and "\<forall>deno entries. files w (path_resolve (denoJsonPath options)) = Some (Json deno)
           \<and> imports' deno = Some entries \<longrightarrow> distinct (map fst entries)"
    and "\<forall>u \<in> set (updates r1). CHR ''/'' \<notin> set (newVersion u)"
  shows "\<exists>w2. syncDenoNpmDependencies path_resolve options w1
                 = (Inr \<lparr>hasUpdates = False, updates = []\<rparr>, w2)
            \<and> files w2 = files w1 \<and> writes w2 = writes w1"
proof -
  define vp where "vp = (case versionPrecision options of None \<Rightarrow> Auto | Some m \<Rightarrow> m)"
  define quiet where "quiet = (case silent options of None \<Rightarrow> False | Some b \<Rightarrow> b)"
  define denoPath where "denoPath = path_resolve (denoJsonPath options)"
  define pkgPath where "pkgPath = path_resolve (packageJsonPath options)"
  from sync_success_files [OF assms(1)] obtain pkg deno entries where
    pkg: "files w pkgPath = Some (Json pkg)" and deno: "files w denoPath = Some (Json deno)"
    and entries: "imports' deno = Some entries" and ok: "entries_ok pkg vp entries"
    unfolding pkgPath_def denoPath_def vp_def by blast
  from assms(2) deno entries have dist: "distinct (map fst entries)"
    unfolding denoPath_def by blast
  note se = sync_entries_eq [OF dist ok]
  note run1 = sync_run [OF pkg [unfolded pkgPath_def] deno [unfolded denoPath_def] entries vp_def quiet_def se,
      folded denoPath_def]
  from run1 assms(1) have r1: "updates r1 = entry_updates pkg vp entries" by auto
  define deno1 where "deno1 = (if entry_updates pkg vp entries \<noteq> []
      then deno\<lparr>imports' := Some (entry_values pkg vp entries)\<rparr> else deno)"
  define entries1 where "entries1 = (if entry_updates pkg vp entries \<noteq> []
      then entry_values pkg vp entries else entries)"
  have deno1: "files w1 denoPath = Some (Json deno1)"
    using run1 assms(1) deno by (auto simp: deno1_def split: if_splits)
  have entries1: "imports' deno1 = Some entries1"
    using entries by (simp add: deno1_def entries1_def)
  have "\<exists>pkg1. files w1 pkgPath = Some (Json pkg1)
      \<and> (\<forall>es. entry_updates pkg1 vp es = entry_updates pkg vp es)
      \<and> (\<forall>es. entries_ok pkg1 vp es = entries_ok pkg vp es)"
  proof (cases "pkgPath = denoPath")
    case True
    with pkg deno have "pkg = deno" by simp
    then have "\<forall>es. entry_updates deno1 vp es = entry_updates pkg vp es"
      "\<forall>es. entries_ok deno1 vp es = entries_ok pkg vp es"
      by (simp_all add: deno1_def entry_updates_ignores_imports entries_ok_ignores_imports)
    with deno1 True show ?thesis by auto
  next
    case False
    with run1 assms(1) pkg have "files w1 pkgPath = Some (Json pkg)"
      by (auto split: if_splits)
    then show ?thesis by blast
  qed
  then obtain pkg1 where pkg1: "files w1 pkgPath = Some (Json pkg1)"
    and same: "\<And>es. entry_updates pkg1 vp es = entry_updates pkg vp es"
    and same_ok: "\<And>es. entries_ok pkg1 vp es = entries_ok pkg vp es"
    by blast
  have quiet1: "entry_updates pkg1 vp entries1 = [] \<and> entries_ok pkg1 vp entries1"
  proof (cases "entry_updates pkg vp entries = []")
    case True
    with ok show ?thesis by (simp add: same same_ok entries1_def)
  next
    case False
    from assms(3) r1 have "\<forall>u \<in> set (entry_updates pkg vp entries). CHR ''/'' \<notin> set (newVersion u)"
      by simp
    from entry_updates_again [OF this ok] False show ?thesis
      by (simp add: same same_ok entries1_def)
  qed
  then have ok1: "entries_ok pkg1 vp entries1" and none1: "entry_updates pkg1 vp entries1 = []"
    by simp_all
  from sync_entries_ok [OF ok1] obtain d1 where
    se1: "sync_entries pkg1 vp entries1
      = Inr (d1, entry_updates pkg1 vp entries1, entry_updates pkg1 vp entries1 \<noteq> [])"
    by blast
  note run2 = sync_run [OF pkg1 [unfolded pkgPath_def] deno1 [unfolded denoPath_def] entries1 vp_def quiet_def se1]
  show ?thesis
    unfolding run2 using none1 by simp
qed

theorem C5_second_run_is_quiet_witness:
  "syncDenoNpmDependencies (\<lambda>p. p) (demo_options None)
      (demo_world [''lodash'' \<mapsto> ''^4.17.21'', ''@std/assert'' \<mapsto> ''^1.0.0'']
         [(''lodash/fp'', JString ''npm:lodash@4.17.0/fp''),
          (''@std/assert'', JString ''jsr:@std/assert@0.226.0'')])
     = (Inr \<lparr>hasUpdates = True,
             updates = [\<lparr>name = ''lodash'', oldVersion = ''4.17.0'', newVersion = ''4.17.21''\<rparr>,
                        \<lparr>name = ''@std/assert'', oldVersion = ''0.226.0'', newVersion = ''1.0.0''\<rparr>]\<rparr>,
        (demo_world [''lodash'' \<mapsto> ''^4.17.21'', ''@std/assert'' \<mapsto> ''^1.0.0'']
           [(''lodash/fp'', JString ''npm:lodash@4.17.21/fp''),
            (''@std/assert'', JString ''jsr:@std/assert@1.0.0'')])
          \<lparr>writes := [''/w/deno.json''],
           console := [Updated_banner,
             Update_line \<lparr>name = ''lodash'', oldVersion = ''4.17.0'', newVersion = ''4.17.21''\<rparr>,
             Update_line \<lparr>name = ''@std/assert'', oldVersion = ''0.226.0'', newVersion = ''1.0.0''\<rparr>]\<rparr>)
   \<and> distinct (map fst [(''lodash/fp'', JString ''npm:lodash@4.17.0/fp''),
                        (''@std/assert'', JString ''jsr:@std/assert@0.226.0'')])
   \<and> CHR ''/'' \<notin> set ''4.17.21'' \<and> CHR ''/'' \<notin> set ''1.0.0''
   \<and> (\<exists>w2. syncDenoNpmDependencies (\<lambda>p. p) (demo_options None)
          ((demo_world [''lodash'' \<mapsto> ''^4.17.21'', ''@std/assert'' \<mapsto> ''^1.0.0'']
             [(''lodash/fp'', JString ''npm:lodash@4.17.21/fp''),
              (''@std/assert'', JString ''jsr:@std/assert@1.0.0'')])
            \<lparr>writes := [''/w/deno.json''],
             console := [Updated_banner,
               Update_line \<lparr>name = ''lodash'', oldVersion = ''4.17.0'', newVersion = ''4.17.21''\<rparr>,
               Update_line \<lparr>name = ''@std/assert'', oldVersion = ''0.226.0'', newVersion = ''1.0.0''\<rparr>]\<rparr>)
          = (Inr \<lparr>hasUpdates = False, updates = []\<rparr>, w2)
        \<and> files w2 = files (demo_world [''lodash'' \<mapsto> ''^4.17.21'', ''@std/assert'' \<mapsto> ''^1.0.0'']
             [(''lodash/fp'', JString ''npm:lodash@4.17.21/fp''),
              (''@std/assert'', JString ''jsr:@std/assert@1.0.0'')])
        \<and> writes w2 = [''/w/deno.json''])"
proof -
  let ?deps = "[''lodash'' \<mapsto> ''^4.17.21'', ''@std/assert'' \<mapsto> ''^1.0.0'']"
  let ?pkg = "\<lparr>imports' = None, dependencies = Some ?deps, devDependencies = None\<rparr>"
  let ?old = "[(''lodash/fp'', JString ''npm:lodash@4.17.0/fp''),
          (''@std/assert'', JString ''jsr:@std/assert@0.226.0'')]"
  let ?new = "[(''lodash/fp'', JString ''npm:lodash@4.17.21/fp''),
            (''@std/assert'', JString ''jsr:@std/assert@1.0.0'')]"
  let ?r1 = "\<lparr>hasUpdates = True,
             updates = [\<lparr>name = ''lodash'', oldVersion = ''4.17.0'', newVersion = ''4.17.21''\<rparr>,
                        \<lparr>name = ''@std/assert'', oldVersion = ''0.226.0'', newVersion = ''1.0.0''\<rparr>]\<rparr>"
  let ?w1 = "(demo_world ?deps ?new)
          \<lparr>writes := [''/w/deno.json''],
           console := [Updated_banner,
             Update_line \<lparr>name = ''lodash'', oldVersion = ''4.17.0'', newVersion = ''4.17.21''\<rparr>,
             Update_line \<lparr>name = ''@std/assert'', oldVersion = ''0.226.0'', newVersion = ''1.0.0''\<rparr>]\<rparr>"
  have p1: "processImport ''npm:lodash@4.17.0/fp'' Npm ?pkg Auto
      = Inr (Some \<lparr>name = ''lodash'', oldVersion = ''4.17.0'', newVersion = ''4.17.21'',
              newImport = ''npm:lodash@4.17.21/fp''\<rparr>)"
    by (simp add: entry_defs)
  have p2: "processImport ''jsr:@std/assert@0.226.0'' Npm ?pkg Auto = Inr None"
    by (simp add: entry_defs)
  have p3: "processImport ''jsr:@std/assert@0.226.0'' Jsr ?pkg Auto
      = Inr (Some \<lparr>name = ''@std/assert'', oldVersion = ''0.226.0'', newVersion = ''1.0.0'',
              newImport = ''jsr:@std/assert@1.0.0''\<rparr>)"
    by (simp add: entry_defs)
  have run1: "syncDenoNpmDependencies (\<lambda>p. p) (demo_options None) (demo_world ?deps ?old) = (Inr ?r1, ?w1)"
    by (simp add: sync_defs p1 p2 p3)
  have keys: "\<forall>deno entries. files (demo_world ?deps ?old) ((\<lambda>p. p) (denoJsonPath (demo_options None))) = Some (Json deno)
           \<and> imports' deno = Some entries \<longrightarrow> distinct (map fst entries)"
    by (auto simp: demo_world_def demo_options_def)
  have noslash: "\<forall>u \<in> set (updates ?r1). CHR ''/'' \<notin> set (newVersion u)"
    by simp
  have w: "files ?w1 = files (demo_world ?deps ?new)" "writes ?w1 = [''/w/deno.json'']"
    by simp_all
  show ?thesis
    using C5_second_run_is_quiet [OF run1 keys noslash] run1 by (simp only: w) simp
qed

subsection \<open>C6\<close>

text \<open>
  Claim C6 on the code. The first half holds: a name declared under \<open>devDependencies\<close>
  takes its version from there (lemma \<open>development_section_wins\<close>; here \<open>typescript\<close>,
  declared in both sections, goes to the \<open>5.0.0\<close> of \<open>devDependencies\<close>). The second half
  holds for the names \<open>Object.prototype\<close> does not have (lemma \<open>undeclared_name_skipped\<close>;
  here \<open>left-pad\<close>) and fails for the others (lemma \<open>inherited_name_throws\<close>): the entry
  \<open>npm:constructor@1.0.0\<close> matches with the name \<open>constructor\<close>, no section declares it, and
  \<open>processImport\<close> throws a \<open>TypeError\<close> instead of returning \<open>null\<close>; the run ends with that
  exception, and the entry \<open>lodash\<close> after it, which the manifest declares, is not
  reconciled.
\<close>

theorem C6_inherited_name_on_the_code:
  "processImport ''npm:typescript@4.9.0'' Npm
      \<lparr>imports' = None, dependencies = Some [''typescript'' \<mapsto> ''^4.9.0''],
       devDependencies = Some [''typescript'' \<mapsto> ''^5.0.0'']\<rparr> Auto
     = Inr (Some \<lparr>name = ''typescript'', oldVersion = ''4.9.0'', newVersion = ''5.0.0'',
                   newImport = ''npm:typescript@5.0.0''\<rparr>)
   \<and> match_pattern Npm ''npm:left-pad@1.0.0'' = Some (''left-pad'', ''1.0.0'', None)
   \<and> [''lodash'' \<mapsto> ''^4.17.21''] ''left-pad'' = None
   \<and> syncDenoNpmDependencies (\<lambda>p. p) (demo_options None)
        (demo_world [''lodash'' \<mapsto> ''^4.17.21'']
          [(''left-pad'', JString ''npm:left-pad@1.0.0''), (''lodash'', JString ''npm:lodash@4.17.0'')])
     = (Inr \<lparr>hasUpdates = True,
             updates = [\<lparr>name = ''lodash'', oldVersion = ''4.17.0'', newVersion = ''4.17.21''\<rparr>]\<rparr>,
        (demo_world [''lodash'' \<mapsto> ''^4.17.21'']
          [(''left-pad'', JString ''npm:left-pad@1.0.0''), (''lodash'', JString ''npm:lodash@4.17.21'')])
          \<lparr>writes := [''/w/deno.json''],
           console := [Updated_banner,
             Update_line \<lparr>name = ''lodash'', oldVersion = ''4.17.0'', newVersion = ''4.17.21''\<rparr>]\<rparr>)
   \<and> match_pattern Npm ''npm:constructor@1.0.0'' = Some (''constructor'', ''1.0.0'', None)
   \<and> [''lodash'' \<mapsto> ''^4.17.21''] ''constructor'' = None
   \<and> processImport ''npm:constructor@1.0.0'' Npm
        \<lparr>imports' = None, dependencies = Some [''lodash'' \<mapsto> ''^4.17.21''], devDependencies = None\<rparr> Auto
     = Inl TypeError
   \<and> sync_entry
        \<lparr>imports' = None, dependencies = Some [''lodash'' \<mapsto> ''^4.17.21''], devDependencies = None\<rparr> Auto
        (''constructor'', JString ''npm:constructor@1.0.0'')
        ([(''constructor'', JString ''npm:constructor@1.0.0''), (''lodash'', JString ''npm:lodash@4.17.0'')],
         [], False)
     = Inl TypeError
   \<and> syncDenoNpmDependencies (\<lambda>p. p) (demo_options None)
        (demo_world [''lodash'' \<mapsto> ''^4.17.21'']
          [(''constructor'', JString ''npm:constructor@1.0.0''), (''lodash'', JString ''npm:lodash@4.17.0'')])
     = (Inl TypeError,
        demo_world [''lodash'' \<mapsto> ''^4.17.21'']
          [(''constructor'', JString ''npm:constructor@1.0.0''), (''lodash'', JString ''npm:lodash@4.17.0'')])"
proof -
  let ?pkg = "\<lparr>imports' = None, dependencies = Some [''lodash'' \<mapsto> ''^4.17.21''], devDependencies = None\<rparr>"
  have d: "processImport ''npm:typescript@4.9.0'' Npm
      \<lparr>imports' = None, dependencies = Some [''typescript'' \<mapsto> ''^4.9.0''],
       devDependencies = Some [''typescript'' \<mapsto> ''^5.0.0'']\<rparr> Auto
     = Inr (Some \<lparr>name = ''typescript'', oldVersion = ''4.9.0'', newVersion = ''5.0.0'',
                   newImport = ''npm:typescript@5.0.0''\<rparr>)"
    by (simp add: entry_defs)
  have m1: "match_pattern Npm ''npm:left-pad@1.0.0'' = Some (''left-pad'', ''1.0.0'', None)"
    by (simp add: match_defs)
  have m2: "match_pattern Npm ''npm:constructor@1.0.0'' = Some (''constructor'', ''1.0.0'', None)"
    by (simp add: match_defs)
  have p1: "processImport ''npm:left-pad@1.0.0'' Npm ?pkg Auto = Inr None"
    by (simp add: entry_defs)
  have p2: "processImport ''npm:left-pad@1.0.0'' Jsr ?pkg Auto = Inr None"
    by (simp add: entry_defs)
  have p3: "processImport ''npm:lodash@4.17.0'' Npm ?pkg Auto
      = Inr (Some \<lparr>name = ''lodash'', oldVersion = ''4.17.0'', newVersion = ''4.17.21'',
              newImport = ''npm:lodash@4.17.21''\<rparr>)"
    by (simp add: entry_defs)
  have p4: "processImport ''npm:constructor@1.0.0'' Npm ?pkg Auto = Inl TypeError"
    by (simp add: entry_defs)
  have body: "sync_entry ?pkg Auto (''constructor'', JString ''npm:constructor@1.0.0'')
        ([(''constructor'', JString ''npm:constructor@1.0.0''), (''lodash'', JString ''npm:lodash@4.17.0'')],
         [], False)
     = Inl TypeError"
    by (simp add: sync_entry_def p4)
  have good: "syncDenoNpmDependencies (\<lambda>p. p) (demo_options None)
        (demo_world [''lodash'' \<mapsto> ''^4.17.21'']
          [(''left-pad'', JString ''npm:left-pad@1.0.0''), (''lodash'', JString ''npm:lodash@4.17.0'')])
     = (Inr \<lparr>hasUpdates = True,
             updates = [\<lparr>name = ''lodash'', oldVersion = ''4.17.0'', newVersion = ''4.17.21''\<rparr>]\<rparr>,
        (demo_world [''lodash'' \<mapsto> ''^4.17.21'']
          [(''left-pad'', JString ''npm:left-pad@1.0.0''), (''lodash'', JString ''npm:lodash@4.17.21'')])
          \<lparr>writes := [''/w/deno.json''],
           console := [Updated_banner,
             Update_line \<lparr>name = ''lodash'', oldVersion = ''4.17.0'', newVersion = ''4.17.21''\<rparr>]\<rparr>)"
    by (simp add: sync_defs p1 p2 p3)
  have bad: "syncDenoNpmDependencies (\<lambda>p. p) (demo_options None)
        (demo_world [''lodash'' \<mapsto> ''^4.17.21'']
          [(''constructor'', JString ''npm:constructor@1.0.0''), (''lodash'', JString ''npm:lodash@4.17.0'')])
     = (Inl TypeError,
        demo_world [''lodash'' \<mapsto> ''^4.17.21'']
          [(''constructor'', JString ''npm:constructor@1.0.0''), (''lodash'', JString ''npm:lodash@4.17.0'')])"
    by (simp add: sync_defs p4)
  show ?thesis
    by (simp only: d m1 m2 p4 body good bad) simp
qed

subsection \<open>C7\<close>

text \<open>
  Claim C7. A missing manifest fails with an error whose message ends with the resolved
  manifest path; a missing import map (the manifest being there) fails with an error whose
  message ends with the resolved import-map path; and whenever the run fails, the world is
  the one it started in: no file written, nothing logged.
\<close>

theorem C7_missing_file_is_fatal:
  "(files w (path_resolve (packageJsonPath options)) = None
      \<longrightarrow> syncDenoNpmDependencies path_resolve options w
          = (Inl (Error (''package.json not found at: '' @ path_resolve (packageJsonPath options))), w))
   \<and> (files w (path_resolve (packageJsonPath options)) \<noteq> None
       \<and> files w (path_resolve (denoJsonPath options)) = None
      \<longrightarrow> syncDenoNpmDependencies path_resolve options w
          = (Inl (Error (''deno.json not found at: '' @ path_resolve (denoJsonPath options))), w))
   \<and> (\<forall>e. fst (syncDenoNpmDependencies path_resolve options w) = Inl e
      \<longrightarrow> snd (syncDenoNpmDependencies path_resolve options w) = w)"
proof (intro conjI impI allI)
  assume "files w (path_resolve (packageJsonPath options)) = None"
  then show "syncDenoNpmDependencies path_resolve options w
          = (Inl (Error (''package.json not found at: '' @ path_resolve (packageJsonPath options))), w)"
    by (simp add: syncDenoNpmDependencies_def Let_def)
next
  assume "files w (path_resolve (packageJsonPath options)) \<noteq> None
       \<and> files w (path_resolve (denoJsonPath options)) = None"
  then show "syncDenoNpmDependencies path_resolve options w
          = (Inl (Error (''deno.json not found at: '' @ path_resolve (denoJsonPath options))), w)"
    by (auto simp: syncDenoNpmDependencies_def Let_def)
next
  fix e
  assume "fst (syncDenoNpmDependencies path_resolve options w) = Inl e"
  then show "snd (syncDenoNpmDependencies path_resolve options w) = w"
    by (rule sync_failure_world)
qed

theorem C7_missing_file_is_fatal_witness:
  "files \<lparr>files = [''/w/deno.json'' \<mapsto> Json \<lparr>imports' = Some [(''zod'', JString ''npm:zod@3.21.0'')],
        dependencies = None, devDependencies = None\<rparr>], writes = [], console = []\<rparr> ''/w/package.json'' = None
   \<and> syncDenoNpmDependencies (\<lambda>p. p)
        \<lparr>denoJsonPath = ''/w/deno.json'', packageJsonPath = ''/w/package.json'', silent = None, versionPrecision = None\<rparr>
        \<lparr>files = [''/w/deno.json'' \<mapsto> Json \<lparr>imports' = Some [(''zod'', JString ''npm:zod@3.21.0'')],
        dependencies = None, devDependencies = None\<rparr>], writes = [], console = []\<rparr>
     = (Inl (Error ''package.json not found at: /w/package.json''),
        \<lparr>files = [''/w/deno.json'' \<mapsto> Json \<lparr>imports' = Some [(''zod'', JString ''npm:zod@3.21.0'')],
        dependencies = None, devDependencies = None\<rparr>], writes = [], console = []\<rparr>)
   \<and> files \<lparr>files = [''/w/package.json'' \<mapsto> Malformed], writes = [], console = []\<rparr> ''/w/package.json'' \<noteq> None
   \<and> files \<lparr>files = [''/w/package.json'' \<mapsto> Malformed], writes = [], console = []\<rparr> ''/w/deno.json'' = None
   \<and> syncDenoNpmDependencies (\<lambda>p. p)
        \<lparr>denoJsonPath = ''/w/deno.json'', packageJsonPath = ''/w/package.json'', silent = None, versionPrecision = None\<rparr>
        \<lparr>files = [''/w/package.json'' \<mapsto> Malformed], writes = [], console = []\<rparr>
     = (Inl (Error ''deno.json not found at: /w/deno.json''),
        \<lparr>files = [''/w/package.json'' \<mapsto> Malformed], writes = [], console = []\<rparr>)
   \<and> fst (syncDenoNpmDependencies (\<lambda>p. p)
        \<lparr>denoJsonPath = ''/w/package.json'', packageJsonPath = ''/w/package.json'', silent = None, versionPrecision = None\<rparr>
        \<lparr>files = [''/w/package.json'' \<mapsto> Malformed], writes = [], console = []\<rparr>) = Inl SyntaxError
   \<and> snd (syncDenoNpmDependencies (\<lambda>p. p)
        \<lparr>denoJsonPath = ''/w/package.json'', packageJsonPath = ''/w/package.json'', silent = None, versionPrecision = None\<rparr>
        \<lparr>files = [''/w/package.json'' \<mapsto> Malformed], writes = [], console = []\<rparr>)
     = \<lparr>files = [''/w/package.json'' \<mapsto> Malformed], writes = [], console = []\<rparr>"
proof -
  let ?o = "\<lparr>denoJsonPath = ''/w/deno.json'', packageJsonPath = ''/w/package.json'', silent = None, versionPrecision = None\<rparr>"
  let ?o' = "\<lparr>denoJsonPath = ''/w/package.json'', packageJsonPath = ''/w/package.json'', silent = None, versionPrecision = None\<rparr>"
  let ?w1 = "\<lparr>files = [''/w/deno.json'' \<mapsto> Json \<lparr>imports' = Some [(''zod'', JString ''npm:zod@3.21.0'')],
        dependencies = None, devDependencies = None\<rparr>], writes = [], console = []\<rparr>"
  let ?w2 = "\<lparr>files = [''/w/package.json'' \<mapsto> Malformed], writes = [], console = []\<rparr>"
  have e: "fst (syncDenoNpmDependencies (\<lambda>p. p) ?o' ?w2) = Inl SyntaxError"
    by (simp add: syncDenoNpmDependencies_def JSON_parse_def)
  show ?thesis
    using C7_missing_file_is_fatal [of ?w1 "\<lambda>p. p" ?o] C7_missing_file_is_fatal [of ?w2 "\<lambda>p. p" ?o]
      C7_missing_file_is_fatal [of ?w2 "\<lambda>p. p" ?o'] e
    by simp
qed

subsection \<open>C8\<close>



subsection \<open>C9\<close>

text \<open>
  Claim C9. \<open>resolveVersion\<close> returns its input when the input does not start with
  \<open>catalog:\<close>; it returns nothing when the input starts with \<open>catalog:\<close> and the detected
  package manager is not pnpm (or none is detected), whatever the workspace document holds;
  and when pnpm is detected it returns what \<open>resolvePnpmCatalog\<close> finds for the trimmed
  catalog name, \<open>default\<close> when that name is empty.
\<close>

theorem C9_resolveVersion:
  "(\<not> startsWith version ''catalog:''
      \<longrightarrow> resolveVersion E version packageName workspaceRoot = Inr (Some (Text version)))
   \<and> (startsWith version ''catalog:'' \<and> detect E workspaceRoot \<noteq> Some ''pnpm''
      \<longrightarrow> resolveVersion E version packageName workspaceRoot = Inr None)
   \<and> (startsWith version ''catalog:'' \<and> detect E workspaceRoot = Some ''pnpm''
      \<longrightarrow> resolveVersion E version packageName workspaceRoot
          = resolvePnpmCatalog E packageName
              (if trim (drop 8 version) = [] then ''default'' else trim (drop 8 version))
              workspaceRoot)"
  by (simp add: resolveVersion_def detectPackageManager_def parseCatalogReference_None
      parseCatalogReference_Some)

theorem C9_resolveVersion_witness:
  "\<not> startsWith ''^4.17.21'' ''catalog:''
   \<and> resolveVersion (demo_env None) ''^4.17.21'' ''lodash'' ''/w'' = Inr (Some (Text ''^4.17.21''))
   \<and> startsWith ''catalog:'' ''catalog:''
   \<and> detect (demo_env None) ''/w'' \<noteq> Some ''pnpm''
   \<and> resolveVersion (demo_env None) ''catalog:'' ''zod'' ''/w'' = Inr None
   \<and> detect (demo_env (Some ''yarn'')) ''/w'' \<noteq> Some ''pnpm''
   \<and> resolveVersion (demo_env (Some ''yarn'')) ''catalog:'' ''zod'' ''/w'' = Inr None
   \<and> detect (demo_env (Some ''pnpm'')) ''/w'' = Some ''pnpm''
   \<and> resolveVersion (demo_env (Some ''pnpm'')) ''catalog:'' ''zod'' ''/w'' = Inr (Some (Text ''^3.22.0''))
   \<and> startsWith ''catalog: dev '' ''catalog:''
   \<and> resolveVersion (demo_env (Some ''pnpm'')) ''catalog: dev '' ''vitest'' ''/w'' = Inr (Some (Text ''^1.0.0''))
   \<and> startsWith ''catalog:constructor'' ''catalog:''
   \<and> resolveVersion (demo_env (Some ''pnpm'')) ''catalog:constructor'' ''name'' ''/w''
       = Inr (Some (Text ''Object''))"
proof -
  have s1: "\<not> startsWith ''^4.17.21'' ''catalog:''" by (simp add: startsWith_def)
  have s2: "startsWith ''catalog:'' ''catalog:''" by (simp add: startsWith_def)
  have s3: "startsWith ''catalog: dev '' ''catalog:''" by (simp add: startsWith_def)
  have s4: "startsWith ''catalog:constructor'' ''catalog:''" by (simp add: startsWith_def)
  have t2: "trim (drop 8 ''catalog:'') = []" by (simp add: trim_def)
  have t3: "trim (drop 8 ''catalog: dev '') = ''dev''" by (simp add: trim_def is_white_space_def)
  have t4: "trim (drop 8 ''catalog:constructor'') = ''constructor''"
    by (simp add: trim_def is_white_space_def)
  have r2: "resolvePnpmCatalog (demo_env (Some ''pnpm'')) ''zod'' ''default'' ''/w'' = Inr (Some (Text ''^3.22.0''))"
    by (simp add: resolvePnpmCatalog_def readPnpmWorkspaceYaml_def get_property_def demo_env_def)
  have r3: "resolvePnpmCatalog (demo_env (Some ''pnpm'')) ''vitest'' ''dev'' ''/w'' = Inr (Some (Text ''^1.0.0''))"
    by (simp add: resolvePnpmCatalog_def readPnpmWorkspaceYaml_def get_property_def demo_env_def)
  have r4: "resolvePnpmCatalog (demo_env (Some ''pnpm'')) ''name'' ''constructor'' ''/w''
      = Inr (Some (Text ''Object''))"
    by (simp add: resolvePnpmCatalog_def readPnpmWorkspaceYaml_def get_property_def
        object_prototype_names_def demo_env_def)
  have d: "detect (demo_env pm) ''/w'' = pm" for pm by (simp add: demo_env_def)
  show ?thesis
    using C9_resolveVersion [of "''^4.17.21''" "demo_env None" "''lodash''" "''/w''"]
      C9_resolveVersion [of "''catalog:''" "demo_env None" "''zod''" "''/w''"]
      C9_resolveVersion [of "''catalog:''" "demo_env (Some ''yarn'')" "''zod''" "''/w''"]
      C9_resolveVersion [of "''catalog:''" "demo_env (Some ''pnpm'')" "''zod''" "''/w''"]
      C9_resolveVersion [of "''catalog: dev ''" "demo_env (Some ''pnpm'')" "''vitest''" "''/w''"]
      C9_resolveVersion [of "''catalog:constructor''" "demo_env (Some ''pnpm'')" "''name''" "''/w''"]
      s1 s2 s3 s4 t2 t3 t4 r2 r3 r4 d
    by simp
qed

subsection \<open>C10\<close>

text \<open>
  Claim C10. \<open>findWorkspaceRoot\<close> never returns the root directory of the start path; and
  when \<open>path.dirname\<close> reaches that root in \<open>n\<close> steps and none of the directories before
  it holds the workspace document while the root does, the loop ends with \<open>null\<close>.
\<close>

theorem C10_root_is_never_tested:
  "findWorkspaceRoot E startPath \<noteq> Some (Some (root_of E (resolve E startPath)))
   \<and> ((dirname E ^^ n) (resolve E startPath) = root_of E (resolve E startPath)
       \<and> (\<forall>i<n. yaml_files E (join E ((dirname E ^^ i) (resolve E startPath)) ''pnpm-workspace.yaml'') = None)
       \<and> yaml_files E (join E (root_of E (resolve E startPath)) ''pnpm-workspace.yaml'') \<noteq> None
      \<longrightarrow> findWorkspaceRoot E startPath = Some None)"
proof (intro conjI impI)
  show "findWorkspaceRoot E startPath \<noteq> Some (Some (root_of E (resolve E startPath)))"
    using findWorkspaceRoot_loop_not_root [of E "root_of E (resolve E startPath)" "resolve E startPath"]
    by (auto simp: findWorkspaceRoot_def Let_def)
next
  assume "(dirname E ^^ n) (resolve E startPath) = root_of E (resolve E startPath)
       \<and> (\<forall>i<n. yaml_files E (join E ((dirname E ^^ i) (resolve E startPath)) ''pnpm-workspace.yaml'') = None)
       \<and> yaml_files E (join E (root_of E (resolve E startPath)) ''pnpm-workspace.yaml'') \<noteq> None"
  then have "findWorkspaceRoot_loop E (root_of E (resolve E startPath)) (resolve E startPath) = Some None"
    by (intro findWorkspaceRoot_loop_null [where n = n]) blast+
  then show "findWorkspaceRoot E startPath = Some None"
    by (simp add: findWorkspaceRoot_def Let_def)
qed

theorem C10_root_is_never_tested_witness:
  "findWorkspaceRoot (root_catalog_env (Some ''pnpm'')) ''/w/app'' \<noteq> Some (Some ''/'')
   \<and> (dirname (root_catalog_env (Some ''pnpm'')) ^^ 2) ''/w/app'' = ''/''
   \<and> yaml_files (root_catalog_env (Some ''pnpm'')) ''/w/app/pnpm-workspace.yaml'' = None
   \<and> yaml_files (root_catalog_env (Some ''pnpm'')) ''/w/pnpm-workspace.yaml'' = None
   \<and> yaml_files (root_catalog_env (Some ''pnpm'')) ''/pnpm-workspace.yaml'' \<noteq> None
   \<and> findWorkspaceRoot (root_catalog_env (Some ''pnpm'')) ''/w/app'' = Some None"
proof -
  let ?E = "root_catalog_env (Some ''pnpm'')"
  have r: "resolve ?E ''/w/app'' = ''/w/app''" "root_of ?E ''/w/app'' = ''/''"
    by (simp_all add: root_catalog_env_def)
  have d: "(dirname ?E ^^ 2) ''/w/app'' = ''/''"
    by (simp add: root_catalog_env_def eval_nat_numeral)
  have j: "join ?E ((dirname ?E ^^ 0) ''/w/app'') ''pnpm-workspace.yaml'' = ''/w/app/pnpm-workspace.yaml''"
    "join ?E ((dirname ?E ^^ 1) ''/w/app'') ''pnpm-workspace.yaml'' = ''/w/pnpm-workspace.yaml''"
    "join ?E ''/'' ''pnpm-workspace.yaml'' = ''/pnpm-workspace.yaml''"
    by (simp_all add: root_catalog_env_def)
  have y: "yaml_files ?E ''/w/app/pnpm-workspace.yaml'' = None"
    "yaml_files ?E ''/w/pnpm-workspace.yaml'' = None"
    "yaml_files ?E ''/pnpm-workspace.yaml'' \<noteq> None"
    by (simp_all add: root_catalog_env_def)
  have a: "\<forall>i<2. yaml_files ?E (join ?E ((dirname ?E ^^ i) ''/w/app'') ''pnpm-workspace.yaml'') = None"
  proof (intro allI impI)
    fix i :: nat assume "i < 2"
    then have "i = 0 \<or> i = 1" by auto
    then show "yaml_files ?E (join ?E ((dirname ?E ^^ i) ''/w/app'') ''pnpm-workspace.yaml'') = None"
      using j y by auto
  qed
  show ?thesis
    using C10_root_is_never_tested [of ?E "''/w/app''" 2] r d j(3) y a
    by simp
qed


end
